theory Spec2Isabelle
  imports Main "HOL-Library.Word" "HOL-Library.AList" "HOL-Library.Multiset"
begin

section \<open>The epoch sequencer of the key-transparency directory\<close>

text \<open>
  A shallow embedding of \<^verbatim>\<open>core/sequencer/sequencer.go\<close>. Go slices of bytes are
  lists of 8-bit words (a nil slice and an empty slice are both \<open>[]\<close>), \<^verbatim>\<open>int64\<close> and
  \<^verbatim>\<open>uint64\<close> are 64-bit words, a pointer to a protobuf message that may be nil is an
  \<open>option\<close>, and the nil-safe protobuf getters are functions that return the zero
  value on \<open>None\<close>. Logging (glog) and the Prometheus counters are left out: they write
  nothing that the sequencer reads back.
\<close>

subsection \<open>Data model\<close>

type_synonym byte = "8 word"
type_synonym bytes = "byte list"
type_synonym int64 = "64 word"

text \<open>
  Errors are values. \<^verbatim>\<open>fmt.Errorf\<close> wraps the error of a collaborator into a message
  that names the failing call; the wrapping is kept as a constructor around the inner
  error. \<open>Panic\<close> is a Go run-time panic (it unwinds through every caller of this file).
\<close>

datatype error =
    External string
  | GetLatestSignedLogRootError int64 error
  | GetSignedMapRootError int64 error
  | NewDBTxnError error
  | ReadAllError int64 error
  | TxnCommitError error
  | NewMutationsError int64 error
  | QueueLeafError int64 bytes error
  | Internal string
  | Panic string

datatype PublicKey =
    Ed25519 bytes
  | RsaVerifyingSha256_3072 bytes
  | EcdsaVerifyingP256 bytes
  | KeyTypeNotSet

record Entry =
  Commitment :: bytes
  AuthorizedKeys :: "PublicKey list"
  Previous :: bytes

record KeyValue =
  Key :: bytes
  Value :: bytes

record SignedKV =
  KeyValue :: "KeyValue option"
  Signatures :: "(string \<times> bytes) list"

definition GetKeyValue :: "SignedKV \<Rightarrow> KeyValue option" where
  "GetKeyValue m = KeyValue m"

definition GetKey :: "KeyValue option \<Rightarrow> bytes" where
  "GetKey kv = (case kv of None \<Rightarrow> [] | Some x \<Rightarrow> Key x)"

text \<open>The messages of the verifiable map and log (Trillian), as far as the sequencer reads
  or writes their fields.\<close>

record MapLeaf =
  Index :: bytes
  LeafHash :: bytes
  LeafValue :: bytes
  ExtraData :: bytes

definition GetLeafValue :: "MapLeaf \<Rightarrow> bytes" where
  "GetLeafValue l = LeafValue l"

record MapperMetadata =
  SourceLogId :: bytes
  HighestFullyCompletedSeq :: int64

record SignedMapRoot =
  TimestampNanos :: int64
  RootHash :: bytes
  Metadata :: "MapperMetadata option"
  MapId :: int64
  MapRevision :: int64

record SignedLogRoot =
  LogTimestampNanos :: int64
  LogRootHash :: bytes
  TreeSize :: int64
  LogId :: int64

record MapLeafInclusion =
  Leaf :: "MapLeaf option"
  Inclusion :: "bytes list"

record Mutation =
  Update :: SignedKV
  Proof :: "MapLeafInclusion option"

record GetMutationsResponse =
  Epoch :: int64
  Smr :: "SignedMapRoot option"
  LogRoot :: "SignedLogRoot option"
  LogConsistency :: "bytes list"
  LogInclusion :: "bytes list"
  Mutations :: "Mutation list"
  NextPageToken :: string

subsection \<open>toArray\<close>

text \<open>
  \<^verbatim>\<open>var i [32]byte; copy(i[:], b); return i\<close>: \<^verbatim>\<open>copy\<close> moves
  \<open>min 32 (length b)\<close> bytes into an array that starts as 32 zero bytes. A
  \<^verbatim>\<open>[32]byte\<close> is a list of length 32.
\<close>

definition toArray :: "bytes \<Rightarrow> bytes" where
  "toArray b = take 32 b @ replicate (32 - length b) 0"

subsection \<open>applyMutations\<close>

text \<open>
  The two external functions that \<^verbatim>\<open>applyMutations\<close> calls are parameters:
  \<^verbatim>\<open>entry.FromLeafValue\<close> (deserialises a leaf value; nil entry for a nil value) and
  the \<^verbatim>\<open>Mutate\<close> method of the \<^verbatim>\<open>mutator.Mutator\<close> interface, which the
  method reads from the field \<^verbatim>\<open>s.mutator\<close>. Both are taken to be functions of their
  arguments.
\<close>

type_synonym fromLeafValue = "bytes \<Rightarrow> error + Entry option"
type_synonym mutator = "Entry option \<Rightarrow> SignedKV \<Rightarrow> error + bytes"

text \<open>
  A Go map is an association list with distinct keys; \<^verbatim>\<open>m[k] = v\<close> is
  \<open>AList.update k v m\<close> and \<^verbatim>\<open>v, ok := m[k]\<close> is \<open>map_of m k\<close>. The order in which
  \<^verbatim>\<open>range\<close> visits a map is not specified by Go: it is a parameter \<open>iter\<close> of the
  model, and every property below is proved for any \<open>iter\<close> that enumerates each entry
  exactly once.
\<close>

type_synonym leafmap = "(bytes \<times> MapLeaf) list"
type_synonym range_order = "leafmap \<Rightarrow> leafmap"

definition visits_each_once :: "range_order \<Rightarrow> bool" where
  "visits_each_once iter = (\<forall>al. mset (iter al) = mset al)"

text \<open>Lines 237 to 240: the fetched leaves, keyed by their normalised index. A nil element
  of \<^verbatim>\<open>leaves\<close> would panic at \<^verbatim>\<open>l.Index\<close>; the list here holds the leaves
  themselves, and the nil case is a branch of \<open>CreateEpoch\<close>, where the list is built.\<close>

definition build_leafMap :: "MapLeaf list \<Rightarrow> leafmap" where
  "build_leafMap leaves = fold (\<lambda>l m. AList.update (toArray (Index l)) l m) leaves []"

text \<open>The body of the loop of lines 243 to 265, for one mutation: which of the three
  exits it takes, with the prior entry handed to the mutator where it is called.\<close>

datatype outcome =
    SkipBadLeaf error
  | SkipInvalid "Entry option" error
  | Write "Entry option" MapLeaf

text \<open>Lines 245 to 253: \<^verbatim>\<open>oldValue\<close> stays nil when no leaf was fetched for the
  index; otherwise it is the deserialised leaf value, or the deserialisation error.\<close>

definition oldValueOf :: "fromLeafValue \<Rightarrow> leafmap \<Rightarrow> bytes \<Rightarrow> error + Entry option" where
  "oldValueOf FromLeafValue leafMap index =
     (case map_of leafMap (toArray index) of
        None \<Rightarrow> Inr None
      | Some leaf \<Rightarrow> FromLeafValue (GetLeafValue leaf))"

definition applyOne :: "fromLeafValue \<Rightarrow> mutator \<Rightarrow> leafmap \<Rightarrow> SignedKV \<Rightarrow> outcome" where
  "applyOne FromLeafValue Mutate leafMap m =
     (let index = GetKey (GetKeyValue m) in
      case oldValueOf FromLeafValue leafMap index of
        Inl err \<Rightarrow> SkipBadLeaf err
      | Inr oldValue \<Rightarrow>
          (case Mutate oldValue m of
             Inl err \<Rightarrow> SkipInvalid oldValue err
           | Inr newValue \<Rightarrow>
               Write oldValue \<lparr>Index = index, LeafHash = [], LeafValue = newValue, ExtraData = []\<rparr>))"

text \<open>The loop state: \<^verbatim>\<open>retMap\<close>, and the calls of \<^verbatim>\<open>Mutate\<close> made so far, as
  (prior entry, mutation). \<^verbatim>\<open>leafMap\<close> is read only.\<close>

record applyState =
  retMap :: leafmap
  mutateCalls :: "(Entry option \<times> SignedKV) list"

fun applyLoop :: "fromLeafValue \<Rightarrow> mutator \<Rightarrow> leafmap \<Rightarrow> SignedKV list \<Rightarrow> applyState \<Rightarrow> applyState" where
  "applyLoop F M leafMap [] st = st"
| "applyLoop F M leafMap (m # ms) st =
     (case applyOne F M leafMap m of
        SkipBadLeaf err \<Rightarrow> applyLoop F M leafMap ms st
      | SkipInvalid oldValue err \<Rightarrow>
          applyLoop F M leafMap ms (st\<lparr>mutateCalls := mutateCalls st @ [(oldValue, m)]\<rparr>)
      | Write oldValue l \<Rightarrow>
          applyLoop F M leafMap ms
            (st\<lparr>retMap := AList.update (toArray (GetKey (GetKeyValue m))) l (retMap st),
                mutateCalls := mutateCalls st @ [(oldValue, m)]\<rparr>))"

definition applyRun :: "fromLeafValue \<Rightarrow> mutator \<Rightarrow> SignedKV list \<Rightarrow> MapLeaf list \<Rightarrow> applyState" where
  "applyRun F M mutations leaves =
     applyLoop F M (build_leafMap leaves) mutations \<lparr>retMap = [], mutateCalls = []\<rparr>"

text \<open>Lines 266 to 271: the values of \<^verbatim>\<open>retMap\<close> in range order, and a nil error.\<close>

definition applyMutations ::
  "range_order \<Rightarrow> fromLeafValue \<Rightarrow> mutator \<Rightarrow> SignedKV list \<Rightarrow> MapLeaf list \<Rightarrow> error + MapLeaf list" where
  "applyMutations iter F M mutations leaves =
     Inr (map snd (iter (retMap (applyRun F M mutations leaves))))"

subsection \<open>The collaborators: map, log, mutation storage\<close>

text \<open>
  The verifiable map, the verifiable log and the mutation storage are remote services.
  Each call is a function on an abstract world \<open>'w\<close> that returns the result (a Go pair
  of a response and an error becomes a sum) and the next world. Of a response, only the
  field that the sequencer reads is kept: the signed root of a root response, the
  inclusions of a \<^verbatim>\<open>GetLeaves\<close> response, the hashes of a proof response. The
  \<^verbatim>\<open>context\<close> argument (deadline, cancellation) is not modelled: a call that it cuts
  short is a call that returns an error. A call that returns no error returns a
  response, and the elements of a repeated field of a response are not nil (both hold
  for messages decoded by gRPC); a message-valued field such as the leaf of an inclusion
  may be nil.
\<close>

type_synonym txn = nat

record GetMapLeavesRequest =
  GL_MapId :: int64
  GL_Index :: "bytes list"
  GL_Revision :: int64

record SetMapLeavesRequest =
  SL_MapId :: int64
  SL_Leaves :: "MapLeaf list"
  SL_MapperData :: "MapperMetadata option"

record LogLeaf =
  LL_LeafValue :: bytes
  LL_LeafIdentityHash :: bytes

record QueueLeafRequest =
  QL_LogId :: int64
  QL_Leaf :: "LogLeaf option"

record GetConsistencyProofRequest =
  CP_LogId :: int64
  CP_FirstTreeSize :: int64
  CP_SecondTreeSize :: int64

record GetInclusionProofRequest =
  IP_LogId :: int64
  IP_LeafIndex :: int64
  IP_TreeSize :: int64

record 'w TrillianLogClient =
  GetLatestSignedLogRoot :: "int64 \<Rightarrow> 'w \<Rightarrow> (error + SignedLogRoot option) \<times> 'w"
  QueueLeaf :: "QueueLeafRequest \<Rightarrow> 'w \<Rightarrow> error option \<times> 'w"
  GetConsistencyProof :: "GetConsistencyProofRequest \<Rightarrow> 'w \<Rightarrow> (error + bytes list) \<times> 'w"
  GetInclusionProof :: "GetInclusionProofRequest \<Rightarrow> 'w \<Rightarrow> (error + bytes list) \<times> 'w"

record 'w TrillianMapClient =
  GetSignedMapRoot :: "int64 \<Rightarrow> 'w \<Rightarrow> (error + SignedMapRoot option) \<times> 'w"
  GetLeaves :: "GetMapLeavesRequest \<Rightarrow> 'w \<Rightarrow> (error + MapLeafInclusion list) \<times> 'w"
  SetLeaves :: "SetMapLeavesRequest \<Rightarrow> 'w \<Rightarrow> (error + SignedMapRoot option) \<times> 'w"

record 'w MutationStorage =
  ReadAll :: "txn \<Rightarrow> int64 \<Rightarrow> 'w \<Rightarrow> (error + int64 \<times> SignedKV list) \<times> 'w"

record 'w TxnFactory =
  NewTxn :: "'w \<Rightarrow> (error + txn) \<times> 'w"
  Commit :: "txn \<Rightarrow> 'w \<Rightarrow> error option \<times> 'w"
  Rollback :: "txn \<Rightarrow> 'w \<Rightarrow> error option \<times> 'w"

text \<open>The \<^verbatim>\<open>Sequencer\<close> struct. Its mutex guards \<^verbatim>\<open>mChannels\<close> only; the
  channel list is the one field that changes and lives in the state below.\<close>

record 'w Sequencer =
  mapID :: int64
  tmap :: "'w TrillianMapClient"
  logID :: int64
  tlog :: "'w TrillianLogClient"
  mutator :: mutator
  mutations :: "'w MutationStorage"
  factory :: "'w TxnFactory"

text \<open>Functions of other packages and of the Go run time that the sequencer calls.\<close>

record externals =
  FromLeafValue :: fromLeafValue
  json_Marshal :: "SignedMapRoot option \<Rightarrow> error + bytes"
  sha256_Sum256 :: "bytes \<Rightarrow> bytes"
  rangeOrder :: range_order

text \<open>Every call to a collaborator is recorded, with its request and its result.\<close>

datatype event =
    EvGetLatestSignedLogRoot int64 "error + SignedLogRoot option"
  | EvQueueLeaf QueueLeafRequest "error option"
  | EvGetConsistencyProof GetConsistencyProofRequest "error + bytes list"
  | EvGetInclusionProof GetInclusionProofRequest "error + bytes list"
  | EvGetSignedMapRoot int64 "error + SignedMapRoot option"
  | EvGetLeaves GetMapLeavesRequest "error + MapLeafInclusion list"
  | EvSetLeaves SetMapLeavesRequest "error + SignedMapRoot option"
  | EvNewTxn "error + txn"
  | EvReadAll txn int64 "error + int64 \<times> SignedKV list"
  | EvCommit txn "error option"
  | EvRollback txn "error option"

text \<open>A subscriber channel is the list of the messages sent on it so far (a nil pointer
  is \<open>None\<close>). A send on a Go channel blocks until a receiver takes the message; the
  model assumes that subscribers do receive.\<close>

type_synonym chan = "GetMutationsResponse option list"

record 'w state =
  world :: 'w
  events :: "event list"
  mChannels :: "chan list"

definition call :: "('w \<Rightarrow> 'r \<times> 'w) \<Rightarrow> ('r \<Rightarrow> event) \<Rightarrow> 'w state \<Rightarrow> 'r \<times> 'w state" where
  "call f ev st =
     (case f (world st) of
        (r, w) \<Rightarrow> (r, st\<lparr>world := w, events := events st @ [ev r]\<rparr>))"

text \<open>The nil-safe getters of the protobuf messages.\<close>

definition GetTreeSize :: "SignedLogRoot option \<Rightarrow> int64" where
  "GetTreeSize r = (case r of None \<Rightarrow> 0 | Some x \<Rightarrow> TreeSize x)"

definition GetMapRevision :: "SignedMapRoot option \<Rightarrow> int64" where
  "GetMapRevision r = (case r of None \<Rightarrow> 0 | Some x \<Rightarrow> MapRevision x)"

definition GetMetadata :: "SignedMapRoot option \<Rightarrow> MapperMetadata option" where
  "GetMetadata r = (case r of None \<Rightarrow> None | Some x \<Rightarrow> Metadata x)"

definition GetHighestFullyCompletedSeq :: "MapperMetadata option \<Rightarrow> int64" where
  "GetHighestFullyCompletedSeq d = (case d of None \<Rightarrow> 0 | Some x \<Rightarrow> HighestFullyCompletedSeq x)"

subsection \<open>queueLogLeaf and Initialize\<close>

definition queueLogLeaf ::
  "externals \<Rightarrow> 'w TrillianLogClient \<Rightarrow> int64 \<Rightarrow> SignedMapRoot option \<Rightarrow> 'w state \<Rightarrow>
   error option \<times> 'w state" where
  "queueLogLeaf ext tlogc lid smr st =
     (case json_Marshal ext smr of
        Inl err \<Rightarrow> (Some err, st)
      | Inr smrJSON \<Rightarrow>
          (let idHash = sha256_Sum256 ext smrJSON;
               req = \<lparr>QL_LogId = lid,
                      QL_Leaf = Some \<lparr>LL_LeafValue = smrJSON, LL_LeafIdentityHash = idHash\<rparr>\<rparr>
           in case call (QueueLeaf tlogc req) (EvQueueLeaf req) st of
                (Some err, st1) \<Rightarrow> (Some (QueueLeafError lid smrJSON err), st1)
              | (None, st1) \<Rightarrow> (None, st1)))"

definition Initialize :: "externals \<Rightarrow> 'w Sequencer \<Rightarrow> 'w state \<Rightarrow> error option \<times> 'w state" where
  "Initialize ext s st =
     (case call (GetLatestSignedLogRoot (tlog s) (logID s))
                (EvGetLatestSignedLogRoot (logID s)) st of
        (Inl err, st1) \<Rightarrow> (Some (GetLatestSignedLogRootError (logID s) err), st1)
      | (Inr logRoot, st1) \<Rightarrow>
          (case call (GetSignedMapRoot (tmap s) (mapID s)) (EvGetSignedMapRoot (mapID s)) st1 of
             (Inl err, st2) \<Rightarrow> (Some (GetSignedMapRootError (mapID s) err), st2)
           | (Inr mapRoot, st2) \<Rightarrow>
               if GetTreeSize logRoot = 0 \<and> GetMapRevision mapRoot = 0
               then queueLogLeaf ext (tlog s) (logID s) mapRoot st2
               else (None, st2)))"

subsection \<open>genEpochTicks\<close>

text \<open>
  A \<^verbatim>\<open>time.Time\<close> is a number of nanoseconds since the Unix epoch, a
  \<^verbatim>\<open>time.Duration\<close> is an \<^verbatim>\<open>int64\<close> of nanoseconds. \<^verbatim>\<open>Time.Sub\<close> saturates at the
  least and the greatest duration, \<^verbatim>\<open>+\<close> on durations wraps around and \<^verbatim>\<open>>=\<close>
  compares them as signed numbers. The time source is the sequence of its readings:
  \<open>clock n\<close> is what the n-th call of \<^verbatim>\<open>Now\<close> returns. The variable
  \<^verbatim>\<open>last\<close> of the source is \<open>last0\<close> here.
\<close>

type_synonym time = int
type_synonym duration = int64

definition time_Sub :: "time \<Rightarrow> time \<Rightarrow> duration" where
  "time_Sub t u =
     (if t - u > 2 ^ 63 - 1 then word_of_int (2 ^ 63 - 1)
      else if t - u < - (2 ^ 63) then word_of_int (- (2 ^ 63))
      else word_of_int (t - u))"

text \<open>The test of lines 183 and 189.\<close>

definition tickDue :: "time \<Rightarrow> time \<Rightarrow> duration \<Rightarrow> duration \<Rightarrow> bool" where
  "tickDue now last0 minElapsed maxElapsed = (maxElapsed \<le>s time_Sub now last0 + minElapsed)"

text \<open>The loop of lines 188 to 195 over the values received from \<^verbatim>\<open>minTick\<close>, and the
  values it sends on \<^verbatim>\<open>enforce\<close>, in order.\<close>

fun tickLoop :: "time \<Rightarrow> time list \<Rightarrow> duration \<Rightarrow> duration \<Rightarrow> bool list" where
  "tickLoop last0 [] minElapsed maxElapsed = []"
| "tickLoop last0 (now # minTick) minElapsed maxElapsed =
     (if tickDue now last0 minElapsed maxElapsed
      then True # tickLoop now minTick minElapsed maxElapsed
      else False # tickLoop last0 minTick minElapsed maxElapsed)"

definition genEpochTicks :: "(nat \<Rightarrow> time) \<Rightarrow> time \<Rightarrow> time list \<Rightarrow> duration \<Rightarrow> duration \<Rightarrow> bool list" where
  "genEpochTicks clock last0 minTick minElapsed maxElapsed =
     (if tickDue (clock 0) last0 minElapsed maxElapsed
      then True # tickLoop (clock 1) minTick minElapsed maxElapsed
      else tickLoop last0 minTick minElapsed maxElapsed)"

subsection \<open>newMutations, logProofs and CreateEpoch\<close>

definition newMutations ::
  "'w Sequencer \<Rightarrow> int64 \<Rightarrow> 'w state \<Rightarrow> (error + SignedKV list \<times> int64) \<times> 'w state" where
  "newMutations s startSequence st =
     (case call (NewTxn (factory s)) EvNewTxn st of
        (Inl err, st1) \<Rightarrow> (Inl (NewDBTxnError err), st1)
      | (Inr tx, st1) \<Rightarrow>
          (case call (ReadAll (mutations s) tx startSequence) (EvReadAll tx startSequence) st1 of
             (Inl err, st2) \<Rightarrow>
               (case call (Rollback (factory s) tx) (EvRollback tx) st2 of
                  (r, st3) \<Rightarrow> (Inl (ReadAllError startSequence err), st3))
           | (Inr (maxSequence, muts), st2) \<Rightarrow>
               (case call (Commit (factory s) tx) (EvCommit tx) st2 of
                  (Some err, st3) \<Rightarrow> (Inl (TxnCommitError err), st3)
                | (None, st3) \<Rightarrow> (Inr (muts, maxSequence), st3))))"

definition logProofs ::
  "'w Sequencer \<Rightarrow> int64 \<Rightarrow> int64 \<Rightarrow> 'w state \<Rightarrow>
   (error + SignedLogRoot option \<times> bytes list option \<times> bytes list) \<times> 'w state" where
  "logProofs s firstTreeSize epoch st =
     (case call (GetLatestSignedLogRoot (tlog s) (logID s))
                (EvGetLatestSignedLogRoot (logID s)) st of
        (Inl err, st1) \<Rightarrow> (Inl (Internal ''Cannot fetch SignedLogRoot''), st1)
      | (Inr logRoot, st1) \<Rightarrow>
          (let secondTreeSize = GetTreeSize logRoot in
           case (if firstTreeSize \<noteq> 0
                 then (let req = \<lparr>CP_LogId = logID s, CP_FirstTreeSize = firstTreeSize,
                                   CP_SecondTreeSize = secondTreeSize\<rparr>
                       in case call (GetConsistencyProof (tlog s) req) (EvGetConsistencyProof req) st1 of
                            (Inl err, st2) \<Rightarrow> (Inl (Internal ''Cannot fetch log consistency proof''), st2)
                          | (Inr p, st2) \<Rightarrow> (Inr (Some p), st2))
                 else (Inr None, st1)) of
             (Inl e, st2) \<Rightarrow> (Inl e, st2)
           | (Inr logConsistency, st2) \<Rightarrow>
               (let req = \<lparr>IP_LogId = logID s, IP_LeafIndex = epoch, IP_TreeSize = secondTreeSize\<rparr>
                in case call (GetInclusionProof (tlog s) req) (EvGetInclusionProof req) st2 of
                     (Inl err, st3) \<Rightarrow> (Inl (Internal ''Cannot fetch log inclusion proof''), st3)
                   | (Inr logInclusion, st3) \<Rightarrow> (Inr (logRoot, logConsistency, logInclusion), st3))))"

text \<open>Lines 326 to 329: \<^verbatim>\<open>mutations[i].Proof = m\<close> for the i-th inclusion of the
  response. An inclusion beyond the end of \<^verbatim>\<open>mutations\<close> is an index out of range.\<close>

fun attachProofs :: "Mutation list \<Rightarrow> MapLeafInclusion list \<Rightarrow> error + Mutation list" where
  "attachProofs ms [] = Inr ms"
| "attachProofs [] (p # ps) = Inl (Panic ''index out of range'')"
| "attachProofs (m # ms) (p # ps) =
     (case attachProofs ms ps of
        Inl e \<Rightarrow> Inl e
      | Inr ms' \<Rightarrow> Inr (m\<lparr>Proof := Some p\<rparr> # ms'))"

definition CreateEpoch ::
  "externals \<Rightarrow> 'w Sequencer \<Rightarrow> bool \<Rightarrow> 'w state \<Rightarrow>
   (error + GetMutationsResponse option) \<times> 'w state" where
  "CreateEpoch ext s forceNewEpoch st =
     (case call (GetSignedMapRoot (tmap s) (mapID s)) (EvGetSignedMapRoot (mapID s)) st of
        (Inl err, st1) \<Rightarrow> (Inl (GetSignedMapRootError (mapID s) err), st1)
      | (Inr rootResp, st1) \<Rightarrow>
     (let startSequence = GetHighestFullyCompletedSeq (GetMetadata rootResp) in
      case newMutations s startSequence st1 of
        (Inl err, st2) \<Rightarrow> (Inl (NewMutationsError startSequence err), st2)
      | (Inr (mRange, seq), st2) \<Rightarrow>
     if length mRange = 0 \<and> \<not> forceNewEpoch then (Inr None, st2)
     else
     (let muts = map (\<lambda>m. \<lparr>Update = m, Proof = None\<rparr>) mRange;
          indexes = map (\<lambda>m. GetKey (GetKeyValue m)) mRange;
          req = \<lparr>GL_MapId = mapID s, GL_Index = indexes, GL_Revision = - 1\<rparr>
      in case call (GetLeaves (tmap s) req) (EvGetLeaves req) st2 of
        (Inl err, st3) \<Rightarrow> (Inl err, st3)
      | (Inr getResp, st3) \<Rightarrow>
     (case attachProofs muts getResp of
        Inl e \<Rightarrow> (Inl e, st3)
      | Inr muts' \<Rightarrow>
     (case those (map Leaf getResp) of
        None \<Rightarrow> (Inl (Panic ''nil pointer dereference''), st3)
      | Some leaves \<Rightarrow>
     (case applyMutations (rangeOrder ext) (FromLeafValue ext) (mutator s) mRange leaves of
        Inl err \<Rightarrow> (Inl err, st3)
      | Inr newLeaves \<Rightarrow>
     (let sreq = \<lparr>SL_MapId = mapID s, SL_Leaves = newLeaves,
                  SL_MapperData = Some \<lparr>SourceLogId = [], HighestFullyCompletedSeq = seq\<rparr>\<rparr>
      in case call (SetLeaves (tmap s) sreq) (EvSetLeaves sreq) st3 of
        (Inl err, st4) \<Rightarrow> (Inl err, st4)
      | (Inr setResp, st4) \<Rightarrow>
     (let revision = GetMapRevision setResp in
      case queueLogLeaf ext (tlog s) (logID s) setResp st4 of
        (Some err, st5) \<Rightarrow> (Inl err, st5)
      | (None, st5) \<Rightarrow>
     (let respEpoch = GetMapRevision setResp - 1 in
      case logProofs s 0 respEpoch st5 of
        (Inl err, st6) \<Rightarrow> (Inl err, st6)
      | (Inr (logRoot, logConsistency, logInclusion), st6) \<Rightarrow>
          (Inr (Some \<lparr>Epoch = revision, Smr = setResp, LogRoot = logRoot,
                      LogConsistency = (case logConsistency of None \<Rightarrow> [] | Some h \<Rightarrow> h),
                      LogInclusion = logInclusion, Mutations = muts',
                      NextPageToken = []\<rparr>), st6))))))))))"

subsection \<open>Dissemination and the signing loop\<close>

definition RegisterMutationsChannel :: "chan \<Rightarrow> 'w state \<Rightarrow> 'w state" where
  "RegisterMutationsChannel ch st = st\<lparr>mChannels := mChannels st @ [ch]\<rparr>"

definition disseminateMutations :: "GetMutationsResponse option \<Rightarrow> 'w state \<Rightarrow> 'w state" where
  "disseminateMutations m st = st\<lparr>mChannels := map (\<lambda>ch. ch @ [m]) (mChannels st)\<rparr>"

text \<open>
  The body of the loop of \<^verbatim>\<open>StartSigning\<close> (lines 164 to 171) for one value \<open>f\<close>
  received from the tick generator. An error of \<^verbatim>\<open>CreateEpoch\<close> is logged and the
  body goes on with a nil \<^verbatim>\<open>mutations\<close>; a panic is not recovered, so it ends the
  loop: the result is \<open>Some\<close> of the panic then, and \<open>None\<close> when the body completes.
  The lines of \<^verbatim>\<open>StartSigning\<close> before the loop (the call of \<^verbatim>\<open>Initialize\<close>, the
  reading of the time of the last epoch) are not modelled.
\<close>

definition epochTick :: "externals \<Rightarrow> 'w Sequencer \<Rightarrow> bool \<Rightarrow> 'w state \<Rightarrow> error option \<times> 'w state" where
  "epochTick ext s f st =
     (case CreateEpoch ext s f st of
        (Inl (Panic p), st1) \<Rightarrow> (Some (Panic p), st1)
      | (Inl err, st1) \<Rightarrow> (None, disseminateMutations None st1)
      | (Inr muts, st1) \<Rightarrow> (None, disseminateMutations muts st1))"

subsection \<open>Notions used to state the properties of applyMutations\<close>

text \<open>The key of a mutation, \<^verbatim>\<open>m.GetKeyValue().GetKey()\<close>.\<close>

definition mutKey :: "SignedKV \<Rightarrow> bytes" where
  "mutKey m = GetKey (GetKeyValue m)"

text \<open>The leaf that the loop body stores for a mutation, if it stores one; the call of
  \<^verbatim>\<open>Mutate\<close> it makes, if it makes one; and the leaf stored by the last mutation of a
  batch that stores one under a given normalised index.\<close>

definition written :: "fromLeafValue \<Rightarrow> mutator \<Rightarrow> leafmap \<Rightarrow> SignedKV \<Rightarrow> MapLeaf option" where
  "written F M leafMap m = (case applyOne F M leafMap m of Write p l \<Rightarrow> Some l | _ \<Rightarrow> None)"

definition called :: "fromLeafValue \<Rightarrow> mutator \<Rightarrow> leafmap \<Rightarrow> SignedKV \<Rightarrow> (Entry option \<times> SignedKV) list" where
  "called F M leafMap m =
     (case applyOne F M leafMap m of
        SkipBadLeaf e \<Rightarrow> [] | SkipInvalid p e \<Rightarrow> [(p, m)] | Write p l \<Rightarrow> [(p, m)])"

definition lastWrite :: "fromLeafValue \<Rightarrow> mutator \<Rightarrow> leafmap \<Rightarrow> SignedKV list \<Rightarrow> bytes \<Rightarrow> MapLeaf option" where
  "lastWrite F M leafMap ms i =
     (let ws = filter (\<lambda>m. toArray (mutKey m) = i \<and> written F M leafMap m \<noteq> None) ms
      in if ws = [] then None else written F M leafMap (last ws))"

text \<open>
  The fold as the specification words it (section 4.3, step 6): one mutable mapping
  \<open>cur\<close>, started from the fetched leaves; the prior entry of a mutation is the
  deserialised \<open>cur[index]\<close>, and a successful mutation overwrites \<open>cur[index]\<close>.
  It is compared with the loop of the source below.
\<close>

record specState =
  cur :: leafmap
  specCalls :: "(Entry option \<times> SignedKV) list"

fun spec_applyLoop :: "fromLeafValue \<Rightarrow> mutator \<Rightarrow> SignedKV list \<Rightarrow> specState \<Rightarrow> specState" where
  "spec_applyLoop F M [] st = st"
| "spec_applyLoop F M (m # ms) st =
     (case oldValueOf F (cur st) (mutKey m) of
        Inl err \<Rightarrow> spec_applyLoop F M ms st
      | Inr prior \<Rightarrow>
          (case M prior m of
             Inl err \<Rightarrow> spec_applyLoop F M ms (st\<lparr>specCalls := specCalls st @ [(prior, m)]\<rparr>)
           | Inr newValue \<Rightarrow>
               spec_applyLoop F M ms
                 (st\<lparr>cur := AList.update (toArray (mutKey m))
                              \<lparr>Index = mutKey m, LeafHash = [], LeafValue = newValue, ExtraData = []\<rparr>
                              (cur st),
                     specCalls := specCalls st @ [(prior, m)]\<rparr>)))"

definition spec_applyRun :: "fromLeafValue \<Rightarrow> mutator \<Rightarrow> SignedKV list \<Rightarrow> MapLeaf list \<Rightarrow> specState" where
  "spec_applyRun F M muts leaves =
     spec_applyLoop F M muts \<lparr>cur = build_leafMap leaves, specCalls = []\<rparr>"

subsection \<open>Notions used to state the properties of the calls to the collaborators\<close>

text \<open>The events that a run adds to the record, and the requests of a kind among them.\<close>

definition newEvents :: "'w state \<Rightarrow> 'w state \<Rightarrow> event list" where
  "newEvents st st' = drop (length (events st)) (events st')"

fun queuedLeaves :: "event list \<Rightarrow> QueueLeafRequest list" where
  "queuedLeaves [] = []"
| "queuedLeaves (EvQueueLeaf req r # es) = req # queuedLeaves es"
| "queuedLeaves (e # es) = queuedLeaves es"

fun setLeavesCalls :: "event list \<Rightarrow> SetMapLeavesRequest list" where
  "setLeavesCalls [] = []"
| "setLeavesCalls (EvSetLeaves req r # es) = req # setLeavesCalls es"
| "setLeavesCalls (e # es) = setLeavesCalls es"

fun getLeavesIndexes :: "event list \<Rightarrow> bytes list list" where
  "getLeavesIndexes [] = []"
| "getLeavesIndexes (EvGetLeaves req r # es) = GL_Index req # getLeavesIndexes es"
| "getLeavesIndexes (e # es) = getLeavesIndexes es"

text \<open>The calls that \<^verbatim>\<open>logProofs\<close> makes, and the watermark that \<^verbatim>\<open>CreateEpoch\<close>
  reads from the current root (\<^verbatim>\<open>startSequence\<close>).\<close>

fun isProofCall :: "event \<Rightarrow> bool" where
  "isProofCall (EvGetLatestSignedLogRoot l r) = True"
| "isProofCall (EvGetConsistencyProof q r) = True"
| "isProofCall (EvGetInclusionProof q r) = True"
| "isProofCall e = False"

definition startSeq :: "SignedMapRoot option \<Rightarrow> int64" where
  "startSeq root = GetHighestFullyCompletedSeq (GetMetadata root)"

text \<open>
  The index list as the specification words it (section 4.3, step 4): the distinct
  indexes of the batch in first-occurrence order. It is compared with the list that the
  source sends below.
\<close>

definition distinctFirst :: "'a list \<Rightarrow> 'a list" where
  "distinctFirst xs = foldl (\<lambda>acc x. if x \<in> set acc then acc else acc @ [x]) [] xs"

text \<open>The condition of section 4.1 of the specification: both trees agree on emptiness
  or both are non-empty.\<close>

definition treesAgree :: "SignedLogRoot option \<Rightarrow> SignedMapRoot option \<Rightarrow> bool" where
  "treesAgree lr mr = ((GetTreeSize lr = 0) = (GetMapRevision mr = 0))"

text \<open>
  The tick sequence as the specification words it (section 4.2). \<open>spec_due\<close> is its
  test, \<open>t - last + minInterval \<ge> maxInterval\<close>, on unbounded integers. The state is
  the time \<open>l\<close> of the last forced epoch and the booleans emitted so far.
  \<open>spec_fire\<close> is one firing \<open>t\<close> for a test \<open>due\<close>: \<open>True\<close> and \<open>l := t\<close>
  when the test holds, \<open>False\<close> otherwise; \<open>ticks_from\<close> runs the firings from a
  start state. \<open>spec_ticks\<close> starts as the specification says: a single \<open>True\<close> iff
  the test holds for \<open>now\<close>, the reading \<open>clock 0\<close>, and then \<open>l := now\<close>, that
  same reading. It is compared with the source below.
\<close>

definition spec_due :: "duration \<Rightarrow> duration \<Rightarrow> time \<Rightarrow> time \<Rightarrow> bool" where
  "spec_due minInterval maxInterval t last0 = (t - last0 + sint minInterval \<ge> sint maxInterval)"

definition spec_fire :: "(time \<Rightarrow> time \<Rightarrow> bool) \<Rightarrow> time \<times> bool list \<Rightarrow> time \<Rightarrow> time \<times> bool list" where
  "spec_fire due st t = (if due t (fst st) then (t, snd st @ [True]) else (fst st, snd st @ [False]))"

definition ticks_from :: "(time \<Rightarrow> time \<Rightarrow> bool) \<Rightarrow> time \<times> bool list \<Rightarrow> time list \<Rightarrow> bool list" where
  "ticks_from due st0 ticks = snd (foldl (spec_fire due) st0 ticks)"

definition spec_ticks :: "(nat \<Rightarrow> time) \<Rightarrow> time \<Rightarrow> time list \<Rightarrow> duration \<Rightarrow> duration \<Rightarrow> bool list" where
  "spec_ticks clock last0 ticks minInterval maxInterval =
     ticks_from (spec_due minInterval maxInterval)
       (if spec_due minInterval maxInterval (clock 0) last0 then (clock 0, [True]) else (last0, []))
       ticks"

text \<open>
  The tick sequence of claim C8 as amended, for a test \<open>due\<close>: at start-up the time of
  the last forced epoch becomes the next reading of the clock, \<open>clock 1\<close>, not the
  reading that was tested. \<open>representable\<close> says that a difference of times and its sum
  with \<open>minInterval\<close> fit a duration.
\<close>

definition reread_ticks :: "(time \<Rightarrow> time \<Rightarrow> bool) \<Rightarrow> (nat \<Rightarrow> time) \<Rightarrow> time \<Rightarrow> time list \<Rightarrow> bool list" where
  "reread_ticks due clock last0 ticks =
     ticks_from due (if due (clock 0) last0 then (clock 1, [True]) else (last0, [])) ticks"

definition representable :: "time \<Rightarrow> time \<Rightarrow> duration \<Rightarrow> bool" where
  "representable t l minInterval =
     (- (2 ^ 63) \<le> t - l \<and> t - l < 2 ^ 63 \<and>
      - (2 ^ 63) \<le> t - l + sint minInterval \<and> t - l + sint minInterval < 2 ^ 63)"

definition allRepresentable :: "(nat \<Rightarrow> time) \<Rightarrow> time \<Rightarrow> time list \<Rightarrow> duration \<Rightarrow> bool" where
  "allRepresentable clock last0 ticks minInterval =
     list_all (\<lambda>t. list_all (\<lambda>l. representable t l minInterval) (last0 # clock 1 # ticks))
       (clock 0 # ticks)"

subsection \<open>A concrete deserialiser, mutator and batch\<close>

text \<open>Used to evaluate the model: a leaf value starting with byte 255 does not
  deserialise, a mutation with an empty value is rejected, and an accepted mutation yields
  its value followed by the commitment of the prior entry.\<close>

definition ex_FromLeafValue :: fromLeafValue where
  "ex_FromLeafValue v =
     (if v = [] then Inr None
      else if hd v = 255 then Inl (External ''unmarshal'')
      else Inr (Some \<lparr>Commitment = v, AuthorizedKeys = [], Previous = []\<rparr>))"

definition ex_Mutate :: mutator where
  "ex_Mutate old m =
     (case KeyValue m of
        None \<Rightarrow> Inl (External ''no key value'')
      | Some kv \<Rightarrow>
          if Value kv = [] then Inl (External ''invalid'')
          else Inr (case old of None \<Rightarrow> Value kv | Some e \<Rightarrow> Value kv @ Commitment e))"

definition ex_kv :: "bytes \<Rightarrow> bytes \<Rightarrow> SignedKV" where
  "ex_kv k v = \<lparr>KeyValue = Some \<lparr>Key = k, Value = v\<rparr>, Signatures = []\<rparr>"

definition ex_leaf :: "bytes \<Rightarrow> bytes \<Rightarrow> MapLeaf" where
  "ex_leaf k v = \<lparr>Index = k, LeafHash = [], LeafValue = v, ExtraData = []\<rparr>"


definition ex_batch :: "SignedKV list" where
  "ex_batch = [ex_kv [1] [10], ex_kv [2] [], ex_kv [1, 0] [20], ex_kv [3] [7], ex_kv [4] [9]]"

definition ex_leaves :: "MapLeaf list" where
  "ex_leaves = [ex_leaf [3] [255, 1], ex_leaf [4] [5]]"

text \<open>Two keys of 33 bytes that differ in their last byte only.\<close>

definition ex_long :: "byte \<Rightarrow> bytes" where
  "ex_long b = replicate 32 7 @ [b]"

definition ex_batch_long :: "SignedKV list" where
  "ex_batch_long = [ex_kv (ex_long 1) [10], ex_kv (ex_long 2) [20]]"

subsection \<open>A concrete map, log and mutation storage\<close>

text \<open>
  Services over a world without state, used to evaluate the model: the log answers
  with a root of a given tree size and accepts every leaf, the map answers with a root of
  a given revision, an empty leaf for every requested index and the next revision for
  \<^verbatim>\<open>SetLeaves\<close>, the storage returns a given batch. \<open>ex_json\<close> and \<open>ex_digest\<close>
  stand in for \<^verbatim>\<open>json.Marshal\<close> and SHA-256.
\<close>

definition ex_json :: "SignedMapRoot option \<Rightarrow> error + bytes" where
  "ex_json smr = (case smr of None \<Rightarrow> Inr [110, 117, 108, 108] | Some r \<Rightarrow> Inr (123 # RootHash r @ [125]))"

definition ex_digest :: "bytes \<Rightarrow> bytes" where
  "ex_digest b = rev b"

definition ex_ext :: externals where
  "ex_ext = \<lparr>FromLeafValue = ex_FromLeafValue, json_Marshal = ex_json,
             sha256_Sum256 = ex_digest, rangeOrder = rev\<rparr>"

definition ex_logRoot :: "int64 \<Rightarrow> SignedLogRoot option" where
  "ex_logRoot treeSize =
     Some \<lparr>LogTimestampNanos = 0, LogRootHash = [], TreeSize = treeSize, LogId = 2\<rparr>"

definition ex_tlog :: "int64 \<Rightarrow> unit TrillianLogClient" where
  "ex_tlog treeSize =
     \<lparr>GetLatestSignedLogRoot = (\<lambda>l w. (Inr (ex_logRoot treeSize), w)),
      QueueLeaf = (\<lambda>q w. (None, w)),
      GetConsistencyProof = (\<lambda>q w. (Inr [], w)),
      GetInclusionProof = (\<lambda>q w. (Inr [[7]], w))\<rparr>"

definition ex_root :: "int64 \<Rightarrow> SignedMapRoot option" where
  "ex_root r = Some \<lparr>TimestampNanos = 0, RootHash = [9],
                     Metadata = Some \<lparr>SourceLogId = [], HighestFullyCompletedSeq = 5\<rparr>,
                     MapId = 1, MapRevision = r\<rparr>"

definition ex_inclusions :: "bytes list \<Rightarrow> MapLeafInclusion list" where
  "ex_inclusions ks = map (\<lambda>k. \<lparr>Leaf = Some (ex_leaf k []), Inclusion = []\<rparr>) ks"

definition ex_tmap :: "int64 \<Rightarrow> unit TrillianMapClient" where
  "ex_tmap r =
     \<lparr>GetSignedMapRoot = (\<lambda>m w. (Inr (ex_root r), w)),
      GetLeaves = (\<lambda>q w. (Inr (ex_inclusions (GL_Index q)), w)),
      SetLeaves = (\<lambda>q w. (Inr (ex_root (r + 1)), w))\<rparr>"

definition ex_seq :: "int64 \<Rightarrow> int64 \<Rightarrow> SignedKV list \<Rightarrow> unit Sequencer" where
  "ex_seq treeSize r batch =
     \<lparr>mapID = 1, tmap = ex_tmap r, logID = 2, tlog = ex_tlog treeSize, mutator = ex_Mutate,
      mutations = \<lparr>ReadAll = (\<lambda>tx sq w. (Inr (sq + of_nat (length batch), batch), w))\<rparr>,
      factory = \<lparr>NewTxn = (\<lambda>w. (Inr 0, w)), Commit = (\<lambda>tx w. (None, w)),
                 Rollback = (\<lambda>tx w. (None, w))\<rparr>\<rparr>"

definition ex_state :: "chan list \<Rightarrow> unit state" where
  "ex_state chans = \<lparr>world = (), events = [], mChannels = chans\<rparr>"

text \<open>The state after one subscriber has registered a channel on which nothing was sent.\<close>

definition ex_subscribed :: "unit state" where
  "ex_subscribed = RegisterMutationsChannel [] (ex_state [])"

definition ex_seq_logDown :: "unit Sequencer" where
  "ex_seq_logDown =
     (ex_seq 0 0 [])\<lparr>tlog := (ex_tlog 0)\<lparr>GetLatestSignedLogRoot :=
        (\<lambda>l w. (Inl (External ''unavailable''), w))\<rparr>\<rparr>"

definition ex_run :: "SignedKV list \<Rightarrow> bool \<Rightarrow> (error + GetMutationsResponse option) \<times> unit state" where
  "ex_run batch force = CreateEpoch ex_ext (ex_seq 1 1 batch) force (ex_state [[]])"

definition ex_init :: "int64 \<Rightarrow> int64 \<Rightarrow> error option \<times> unit state" where
  "ex_init treeSize r = Initialize ex_ext (ex_seq treeSize r []) (ex_state [[]])"


section \<open>Properties\<close>

subsection \<open>applyMutations\<close>

lemma length_toArray: "length (toArray b) = 32"
  by (simp add: toArray_def)

lemma applyLoop_append:
  "applyLoop F M lm (xs @ ys) st = applyLoop F M lm ys (applyLoop F M lm xs st)"
  by (induction xs arbitrary: st) (auto split: outcome.splits)

lemma applyLoop_retMap_calls_indep:
  "retMap (applyLoop F M lm ms (st\<lparr>mutateCalls := c\<rparr>)) = retMap (applyLoop F M lm ms st)"
  by (induction ms arbitrary: st c) (auto split: outcome.splits)

lemma applyLoop_calls:
  "mutateCalls (applyLoop F M lm ms st) = mutateCalls st @ concat (map (called F M lm) ms)"
  by (induction ms arbitrary: st) (auto simp: called_def split: outcome.splits)

lemma lastWrite_Nil: "lastWrite F M lm [] i = None"
  by (simp add: lastWrite_def)

lemma lastWrite_snoc:
  "lastWrite F M lm (ms @ [m]) i =
     (if toArray (mutKey m) = i \<and> written F M lm m \<noteq> None then written F M lm m
      else lastWrite F M lm ms i)"
  by (auto simp: lastWrite_def Let_def)

lemma applyLoop_snoc_retMap:
  "retMap (applyLoop F M lm (ms @ [m]) st) =
     (case written F M lm m of
        None \<Rightarrow> retMap (applyLoop F M lm ms st)
      | Some l \<Rightarrow> AList.update (toArray (mutKey m)) l (retMap (applyLoop F M lm ms st)))"
  by (simp add: applyLoop_append written_def mutKey_def split: outcome.splits)

lemma applyLoop_map_of:
  "map_of (retMap (applyLoop F M lm ms st)) i =
     (case lastWrite F M lm ms i of None \<Rightarrow> map_of (retMap st) i | Some l \<Rightarrow> Some l)"
proof (induction ms rule: rev_induct)
  case Nil
  show ?case by (simp add: lastWrite_Nil)
next
  case (snoc m ms)
  show ?case
  proof (cases "written F M lm m")
    case None
    then show ?thesis by (simp add: applyLoop_snoc_retMap lastWrite_snoc snoc)
  next
    case (Some l)
    then show ?thesis
      by (simp add: applyLoop_snoc_retMap lastWrite_snoc snoc update_conv')
  qed
qed

lemma written_Index: "written F M lm m = Some l \<Longrightarrow> Index l = mutKey m"
  by (auto simp: written_def applyOne_def mutKey_def Let_def split: outcome.splits sum.splits)

lemma applyLoop_keys:
  "\<forall>p \<in> set (retMap st). fst p = toArray (Index (snd p)) \<Longrightarrow>
   \<forall>p \<in> set (retMap (applyLoop F M lm ms st)). fst p = toArray (Index (snd p))"
proof (induction ms rule: rev_induct)
  case Nil
  then show ?case by simp
next
  case (snoc m ms)
  show ?case
  proof (cases "written F M lm m")
    case None
    then show ?thesis using snoc by (simp add: applyLoop_snoc_retMap)
  next
    case (Some l)
    have "set (AList.update k v al) \<subseteq> insert (k, v) (set al)" for k v and al :: leafmap
      by (induction al) auto
    then show ?thesis using snoc Some written_Index[OF Some]
      by (fastforce simp: applyLoop_snoc_retMap)
  qed
qed

lemma applyLoop_distinct:
  "distinct (map fst (retMap st)) \<Longrightarrow> distinct (map fst (retMap (applyLoop F M lm ms st)))"
  by (induction ms arbitrary: st) (auto simp: distinct_update split: outcome.splits)


lemma applyLoop_drop:
  "written F M lm m = None \<Longrightarrow>
   retMap (applyLoop F M lm (xs @ m # ys) st) = retMap (applyLoop F M lm (xs @ ys) st)"
  by (auto simp: applyLoop_append written_def applyLoop_retMap_calls_indep split: outcome.splits)

lemma alist_filter_key:
  "distinct (map fst al) \<Longrightarrow> \<forall>p\<in>set al. fst p = g (snd p) \<Longrightarrow>
   filter (\<lambda>l. g l = i) (map snd al) = (case map_of al i of None \<Rightarrow> [] | Some l \<Rightarrow> [l])"
proof (induction al)
  case Nil
  show ?case by simp
next
  case (Cons p al)
  have rest: "filter (\<lambda>l. g l = i) (map snd al) = (case map_of al i of None \<Rightarrow> [] | Some l \<Rightarrow> [l])"
    using Cons by simp
  show ?case
  proof (cases "fst p = i")
    case True
    then have "i \<notin> fst ` set al" using Cons.prems(1) by auto
    then have "map_of al i = None" by (simp add: map_of_eq_None_iff)
    with rest True Cons.prems(2) show ?thesis by (cases p) auto
  next
    case False
    with rest Cons.prems(2) show ?thesis by (cases p) auto
  qed
qed

lemma visits_mset: "visits_each_once iter \<Longrightarrow> mset (iter al) = mset al"
  by (simp add: visits_each_once_def)

lemma visits_set: "visits_each_once iter \<Longrightarrow> set (iter al) = set al"
  by (metis visits_mset set_mset_mset)


lemma visits_distinct:
  assumes "visits_each_once iter" "distinct (map fst al)"
  shows "distinct (map fst (iter al))"
proof -
  have "mset (map fst (iter al)) = mset (map fst al)"
    using visits_mset[OF assms(1)] by (metis mset_map)
  then show ?thesis using assms(2) by (metis mset_eq_imp_distinct_iff)
qed

lemma visits_map_of:
  assumes "visits_each_once iter" "distinct (map fst al)"
  shows "map_of (iter al) = map_of al"
  using visits_distinct[OF assms] assms(2) visits_set[OF assms(1)]
  by (simp add: map_of_inject_set)

lemma applyRun_distinct: "distinct (map fst (retMap (applyRun F M ms leaves)))"
  by (simp add: applyRun_def applyLoop_distinct)

lemma applyRun_keys: "\<forall>p\<in>set (retMap (applyRun F M ms leaves)). fst p = toArray (Index (snd p))"
  unfolding applyRun_def by (rule applyLoop_keys) simp

lemma applyRun_map_of:
  "map_of (retMap (applyRun F M ms leaves)) i = lastWrite F M (build_leafMap leaves) ms i"
  by (simp add: applyRun_def applyLoop_map_of split: option.splits)

lemma ret_filter:
  assumes "visits_each_once iter"
  shows "filter (\<lambda>l. toArray (Index l) = i) (map snd (iter (retMap (applyRun F M ms leaves)))) =
     (case lastWrite F M (build_leafMap leaves) ms i of None \<Rightarrow> [] | Some l \<Rightarrow> [l])"
proof -
  let ?al = "retMap (applyRun F M ms leaves)"
  have d: "distinct (map fst (iter ?al))"
    by (rule visits_distinct[OF assms applyRun_distinct])
  have k: "\<forall>p\<in>set (iter ?al). fst p = toArray (Index (snd p))"
    using applyRun_keys[of F M ms leaves] visits_set[OF assms] by simp
  show ?thesis
    using alist_filter_key[OF d k, of i]
    by (simp add: visits_map_of[OF assms applyRun_distinct] applyRun_map_of)
qed

lemma ret_distinct:
  assumes "visits_each_once iter"
  shows "distinct (map (\<lambda>l. toArray (Index l)) (map snd (iter (retMap (applyRun F M ms leaves)))))"
proof -
  let ?al = "retMap (applyRun F M ms leaves)"
  have k: "\<forall>p\<in>set (iter ?al). fst p = toArray (Index (snd p))"
    using applyRun_keys[of F M ms leaves] visits_set[OF assms] by simp
  then have "map (\<lambda>l. toArray (Index l)) (map snd (iter ?al)) = map fst (iter ?al)"
    by (simp add: o_def)
  moreover have "distinct (map fst (iter ?al))"
    by (rule visits_distinct[OF assms applyRun_distinct])
  ultimately show ?thesis by (simp only:)
qed

text \<open>
  Claim C2. In the list that \<^verbatim>\<open>applyMutations\<close> returns, no two leaves have the same
  normalised index, and for every normalised index \<open>i\<close> the leaves of the list under
  \<open>i\<close> are exactly: none, when no mutation of the batch with that index was accepted
  by the mutator; otherwise the one leaf produced by the last such mutation in batch
  order. This holds for every order in which the Go map may be ranged over.
\<close>

theorem applyMutations_dedup_last_wins:
  assumes "visits_each_once iter"
    and "applyMutations iter F M muts leaves = Inr ret"
  shows "distinct (map (\<lambda>l. toArray (Index l)) ret) \<and>
         (\<forall>i. filter (\<lambda>l. toArray (Index l) = i) ret =
               (case lastWrite F M (build_leafMap leaves) muts i of
                  None \<Rightarrow> [] | Some l \<Rightarrow> [l]))"
  using assms ret_filter[OF assms(1)] ret_distinct[OF assms(1)]
  by (auto simp: applyMutations_def)

theorem applyMutations_dedup_last_wins_witness:
  "visits_each_once rev \<and>
   applyMutations rev ex_FromLeafValue ex_Mutate ex_batch ex_leaves =
     Inr [ex_leaf [4] [9, 5], ex_leaf [1, 0] [20]] \<and>
   distinct (map (\<lambda>l. toArray (Index l)) [ex_leaf [4] [9, 5], ex_leaf [1, 0] [20]]) \<and>
   filter (\<lambda>l. toArray (Index l) = toArray [1]) [ex_leaf [4] [9, 5], ex_leaf [1, 0] [20]] =
     (case lastWrite ex_FromLeafValue ex_Mutate (build_leafMap ex_leaves) ex_batch (toArray [1]) of
        None \<Rightarrow> [] | Some l \<Rightarrow> [l])"
proof -
  have h1: "visits_each_once rev" by (simp add: visits_each_once_def)
  have h2: "applyMutations rev ex_FromLeafValue ex_Mutate ex_batch ex_leaves =
     Inr [ex_leaf [4] [9, 5], ex_leaf [1, 0] [20]]" by code_simp
  show ?thesis using h1 h2
      applyMutations_dedup_last_wins [where iter = rev and F = ex_FromLeafValue and M = ex_Mutate
        and muts = ex_batch and leaves = ex_leaves, OF h1 h2]
    by blast
qed


lemma applyOne_badleaf:
  "map_of lm (toArray (mutKey m)) = Some leaf \<Longrightarrow> F (GetLeafValue leaf) = Inl err \<Longrightarrow>
   applyOne F M lm m = SkipBadLeaf err"
  by (simp add: applyOne_def mutKey_def oldValueOf_def)

lemma applyRun_drop:
  "written F M (build_leafMap leaves) m = None \<Longrightarrow>
   retMap (applyRun F M (xs @ m # ys) leaves) = retMap (applyRun F M (xs @ ys) leaves)"
  by (simp add: applyRun_def applyLoop_drop)

lemma applyRun_calls:
  "mutateCalls (applyRun F M ms leaves) = concat (map (called F M (build_leafMap leaves)) ms)"
  by (simp add: applyRun_def applyLoop_calls)


text \<open>
  Claim C9. When a leaf was fetched for the index of a mutation and its value does not
  deserialise, the loop body leaves through its first \<^verbatim>\<open>continue\<close>: the mutator is
  not called for that mutation (neither with the stored entry nor with a nil one), no
  returned leaf has that normalised index, and the batch yields the same leaves and the
  same mutator calls as the batch without that mutation.
\<close>

theorem applyMutations_skips_undeserialisable:
  assumes "visits_each_once iter"
    and "map_of (build_leafMap leaves) (toArray (mutKey m)) = Some leaf"
    and "F (GetLeafValue leaf) = Inl err"
  shows "applyOne F M (build_leafMap leaves) m = SkipBadLeaf err \<and>
         (\<forall>p. (p, m) \<notin> set (mutateCalls (applyRun F M (xs @ m # ys) leaves))) \<and>
         (\<forall>ret. applyMutations iter F M (xs @ m # ys) leaves = Inr ret \<longrightarrow>
                (\<forall>l\<in>set ret. toArray (Index l) \<noteq> toArray (mutKey m))) \<and>
         applyMutations iter F M (xs @ m # ys) leaves =
           applyMutations iter F M (xs @ ys) leaves \<and>
         mutateCalls (applyRun F M (xs @ m # ys) leaves) =
           mutateCalls (applyRun F M (xs @ ys) leaves)"
proof -
  let ?lm = "build_leafMap leaves"
  have one: "applyOne F M ?lm m = SkipBadLeaf err"
    using assms(2,3) by (rule applyOne_badleaf)
  have bad: "applyOne F M ?lm m' = SkipBadLeaf err"
    if "toArray (mutKey m') = toArray (mutKey m)" for m'
    using that assms(2,3) by (simp add: applyOne_def mutKey_def oldValueOf_def)
  have w: "written F M ?lm m = None" by (simp add: written_def one)
  have c: "called F M ?lm m = []" by (simp add: called_def one)
  have nocall: "(p, m) \<notin> set (mutateCalls (applyRun F M zs leaves))" for p zs
    using one by (auto simp: applyRun_calls called_def split: outcome.splits)
  have lw: "lastWrite F M ?lm zs (toArray (mutKey m)) = None" for zs
  proof -
    have "filter (\<lambda>m'. toArray (mutKey m') = toArray (mutKey m) \<and> written F M ?lm m' \<noteq> None) zs = []"
      by (auto simp: filter_empty_conv written_def bad)
    then show ?thesis by (simp add: lastWrite_def)
  qed
  have noleaf: "\<forall>l\<in>set ret. toArray (Index l) \<noteq> toArray (mutKey m)"
    if "applyMutations iter F M (xs @ m # ys) leaves = Inr ret" for ret
  proof -
    have "filter (\<lambda>l. toArray (Index l) = toArray (mutKey m)) ret = []"
      using ret_filter[OF assms(1), of "toArray (mutKey m)" F M "xs @ m # ys" leaves] that
      by (auto simp: applyMutations_def lw)
    then show ?thesis by (simp add: filter_empty_conv)
  qed
  have eq: "applyMutations iter F M (xs @ m # ys) leaves =
            applyMutations iter F M (xs @ ys) leaves"
    by (simp add: applyMutations_def applyRun_drop[OF w])
  have ceq: "mutateCalls (applyRun F M (xs @ m # ys) leaves) =
             mutateCalls (applyRun F M (xs @ ys) leaves)"
    by (simp add: applyRun_calls c)
  show ?thesis using one nocall noleaf eq ceq by blast
qed

theorem applyMutations_skips_undeserialisable_witness:
  "visits_each_once rev \<and>
   map_of (build_leafMap ex_leaves) (toArray (mutKey (ex_kv [3] [7]))) = Some (ex_leaf [3] [255, 1]) \<and>
   ex_FromLeafValue (GetLeafValue (ex_leaf [3] [255, 1])) = Inl (External ''unmarshal'') \<and>
   applyOne ex_FromLeafValue ex_Mutate (build_leafMap ex_leaves) (ex_kv [3] [7]) =
     SkipBadLeaf (External ''unmarshal'') \<and>
   applyMutations rev ex_FromLeafValue ex_Mutate
     ([ex_kv [1] [10], ex_kv [2] [], ex_kv [1, 0] [20]] @ ex_kv [3] [7] # [ex_kv [4] [9]]) ex_leaves =
   applyMutations rev ex_FromLeafValue ex_Mutate
     ([ex_kv [1] [10], ex_kv [2] [], ex_kv [1, 0] [20]] @ [ex_kv [4] [9]]) ex_leaves \<and>
   mutateCalls (applyRun ex_FromLeafValue ex_Mutate
     ([ex_kv [1] [10], ex_kv [2] [], ex_kv [1, 0] [20]] @ ex_kv [3] [7] # [ex_kv [4] [9]]) ex_leaves) =
   mutateCalls (applyRun ex_FromLeafValue ex_Mutate
     ([ex_kv [1] [10], ex_kv [2] [], ex_kv [1, 0] [20]] @ [ex_kv [4] [9]]) ex_leaves) \<and>
   (None, ex_kv [3] [7]) \<notin> set (mutateCalls (applyRun ex_FromLeafValue ex_Mutate
     ([ex_kv [1] [10], ex_kv [2] [], ex_kv [1, 0] [20]] @ ex_kv [3] [7] # [ex_kv [4] [9]]) ex_leaves)) \<and>
   applyMutations rev ex_FromLeafValue ex_Mutate
     ([ex_kv [1] [10], ex_kv [2] [], ex_kv [1, 0] [20]] @ ex_kv [3] [7] # [ex_kv [4] [9]]) ex_leaves =
     Inr [ex_leaf [4] [9, 5], ex_leaf [1, 0] [20]] \<and>
   toArray (Index (ex_leaf [4] [9, 5])) \<noteq> toArray (mutKey (ex_kv [3] [7])) \<and>
   toArray (Index (ex_leaf [1, 0] [20])) \<noteq> toArray (mutKey (ex_kv [3] [7]))"
proof -
  have h1: "visits_each_once rev" by (simp add: visits_each_once_def)
  have h4: "applyMutations rev ex_FromLeafValue ex_Mutate
     ([ex_kv [1] [10], ex_kv [2] [], ex_kv [1, 0] [20]] @ ex_kv [3] [7] # [ex_kv [4] [9]]) ex_leaves =
     Inr [ex_leaf [4] [9, 5], ex_leaf [1, 0] [20]]" by code_simp
  have h2: "map_of (build_leafMap ex_leaves) (toArray (mutKey (ex_kv [3] [7]))) =
     Some (ex_leaf [3] [255, 1])" by code_simp
  have h3: "ex_FromLeafValue (GetLeafValue (ex_leaf [3] [255, 1])) = Inl (External ''unmarshal'')"
    by code_simp
  show ?thesis
    using h1 h2 h3 h4
      applyMutations_skips_undeserialisable [where iter = rev and F = ex_FromLeafValue
        and M = ex_Mutate and leaves = ex_leaves and m = "ex_kv [3] [7]"
        and leaf = "ex_leaf [3] [255, 1]" and err = "External ''unmarshal''"
        and xs = "[ex_kv [1] [10], ex_kv [2] [], ex_kv [1, 0] [20]]"
        and ys = "[ex_kv [4] [9]]", OF h1 h2 h3]
    by auto
qed

lemma build_leafMap_snoc:
  "build_leafMap (leaves @ [l]) = AList.update (toArray (Index l)) l (build_leafMap leaves)"
  by (simp add: build_leafMap_def)

lemma build_leafMap_lookup:
  "map_of (build_leafMap leaves) i =
     (let ls = filter (\<lambda>l. toArray (Index l) = i) leaves in if ls = [] then None else Some (last ls))"
proof (induction leaves rule: rev_induct)
  case Nil
  show ?case by (simp add: build_leafMap_def)
next
  case (snoc l leaves)
  then show ?case by (auto simp: build_leafMap_snoc update_conv' Let_def)
qed

lemma build_leafMap_Some:
  assumes "map_of (build_leafMap leaves) i = Some leaf"
  shows "leaf \<in> set leaves \<and> toArray (Index leaf) = i"
proof -
  let ?ls = "filter (\<lambda>l. toArray (Index l) = i) leaves"
  from assms have ne: "?ls \<noteq> []" and l: "leaf = last ?ls"
    by (auto simp: build_leafMap_lookup Let_def split: if_splits)
  from ne have "last ?ls \<in> set ?ls" by (rule last_in_set)
  with l show ?thesis by auto
qed

lemma toArray_short: "length k \<le> 32 \<Longrightarrow> toArray k = k @ replicate (32 - length k) 0"
  by (simp add: toArray_def)

lemma toArray_long: "32 \<le> length k \<Longrightarrow> toArray k = take 32 k"
  by (simp add: toArray_def)

lemma toArray_take_cong:
  assumes "take 32 k1 = take 32 k2"
  shows "toArray k1 = toArray k2"
proof -
  have "length (take 32 k1) = length (take 32 k2)" using assms by simp
  then have "min (length k1) 32 = min (length k2) 32" by simp
  then have "32 - length k1 = 32 - length k2" by linarith
  with assms show ?thesis by (simp add: toArray_def)
qed

lemma lastWrite_Some:
  assumes "lastWrite F M lm ms i = Some l"
  shows "\<exists>m\<in>set ms. toArray (mutKey m) = i \<and> written F M lm m = Some l"
proof -
  let ?ws = "filter (\<lambda>m. toArray (mutKey m) = i \<and> written F M lm m \<noteq> None) ms"
  from assms have ne: "?ws \<noteq> []" and l: "written F M lm (last ?ws) = Some l"
    by (auto simp: lastWrite_def Let_def split: if_splits)
  from ne have "last ?ws \<in> set ?ws" by (rule last_in_set)
  with l show ?thesis by auto
qed

lemma ret_member:
  assumes "visits_each_once iter"
    and "l \<in> set (map snd (iter (retMap (applyRun F M ms leaves))))"
  shows "\<exists>m\<in>set ms. written F M (build_leafMap leaves) m = Some l"
proof -
  let ?ret = "map snd (iter (retMap (applyRun F M ms leaves)))"
  have "l \<in> set (filter (\<lambda>x. toArray (Index x) = toArray (Index l)) ?ret)"
    using assms(2) by simp
  then have "lastWrite F M (build_leafMap leaves) ms (toArray (Index l)) = Some l"
    unfolding ret_filter[OF assms(1)] by (auto split: option.splits)
  then show ?thesis using lastWrite_Some by blast
qed

text \<open>
  Claim C1, as amended. The mutator is called once for every mutation whose fetched leaf
  deserialises (or that has no fetched leaf), in batch order, and the prior entry it is
  given is the deserialised leaf fetched for the index (nil when none was fetched): it
  is a function of the fetched leaves and the key alone, whatever earlier mutations of the
  batch did. \<^verbatim>\<open>leafMap\<close> is never written; on success the new leaf goes into the
  separate map \<^verbatim>\<open>retMap\<close> under the normalised index, replacing an earlier one.
\<close>

theorem applyMutations_prior_is_fetched_leaf:
  "mutateCalls (applyRun F M muts leaves) =
     concat (map (\<lambda>m. case oldValueOf F (build_leafMap leaves) (mutKey m) of
                          Inl e \<Rightarrow> []
                        | Inr prior \<Rightarrow> [(prior, m)]) muts) \<and>
   retMap (applyRun F M (muts @ [m]) leaves) =
     (case oldValueOf F (build_leafMap leaves) (mutKey m) of
        Inl e \<Rightarrow> retMap (applyRun F M muts leaves)
      | Inr prior \<Rightarrow>
          (case M prior m of
             Inl e \<Rightarrow> retMap (applyRun F M muts leaves)
           | Inr newValue \<Rightarrow>
               AList.update (toArray (mutKey m))
                 \<lparr>Index = mutKey m, LeafHash = [], LeafValue = newValue, ExtraData = []\<rparr>
                 (retMap (applyRun F M muts leaves))))"
proof -
  have "called F M lm =
        (\<lambda>x. case oldValueOf F lm (mutKey x) of Inl e \<Rightarrow> [] | Inr prior \<Rightarrow> [(prior, x)])" for lm
    by (rule ext) (simp add: called_def applyOne_def mutKey_def split: sum.splits)
  then have calls: "mutateCalls (applyRun F M muts leaves) =
     concat (map (\<lambda>m. case oldValueOf F (build_leafMap leaves) (mutKey m) of
                          Inl e \<Rightarrow> []
                        | Inr prior \<Rightarrow> [(prior, m)]) muts)"
    by (simp add: applyRun_calls)
  have "retMap (applyRun F M (muts @ [m]) leaves) =
     (case written F M (build_leafMap leaves) m of
        None \<Rightarrow> retMap (applyRun F M muts leaves)
      | Some l \<Rightarrow> AList.update (toArray (mutKey m)) l (retMap (applyRun F M muts leaves)))"
    unfolding applyRun_def by (simp add: applyLoop_snoc_retMap)
  then show ?thesis using calls
    by (simp add: written_def applyOne_def mutKey_def split: sum.splits)
qed

text \<open>
  Claim C1 as stated fails: two accepted mutations of one key, no fetched leaf. The
  source hands the mutator a nil prior entry both times; the fold of the specification
  hands the second call the entry written by the first.
\<close>

theorem applyMutations_prior_counterexample:
  "mutateCalls (applyRun ex_FromLeafValue ex_Mutate [ex_kv [1] [10], ex_kv [1] [20]] []) =
     [(None, ex_kv [1] [10]), (None, ex_kv [1] [20])] \<and>
   specCalls (spec_applyRun ex_FromLeafValue ex_Mutate [ex_kv [1] [10], ex_kv [1] [20]] []) =
     [(None, ex_kv [1] [10]),
      (Some \<lparr>Commitment = [10], AuthorizedKeys = [], Previous = []\<rparr>, ex_kv [1] [20])] \<and>
   mutateCalls (applyRun ex_FromLeafValue ex_Mutate [ex_kv [1] [10], ex_kv [1] [20]] []) \<noteq>
   specCalls (spec_applyRun ex_FromLeafValue ex_Mutate [ex_kv [1] [10], ex_kv [1] [20]] [])"
  by code_simp

subsection \<open>The calls to the collaborators\<close>

lemma queuedLeaves_append: "queuedLeaves (xs @ ys) = queuedLeaves xs @ queuedLeaves ys"
  by (induction xs rule: queuedLeaves.induct) auto

lemma queueLogLeaf_cases:
  assumes "queueLogLeaf ext tlogc lid smr st = (r, st')"
  obtains
    (marshalFail) e where "json_Marshal ext smr = Inl e" "r = Some e" "st' = st"
  | (queued) js res where "json_Marshal ext smr = Inr js"
      "events st' = events st @ [EvQueueLeaf \<lparr>QL_LogId = lid, QL_Leaf = Some \<lparr>LL_LeafValue = js,
                      LL_LeafIdentityHash = sha256_Sum256 ext js\<rparr>\<rparr> res]"
      "mChannels st' = mChannels st"
      "r = (case res of None \<Rightarrow> None | Some e \<Rightarrow> Some (QueueLeafError lid js e))"
  using assms
  by (auto simp: queueLogLeaf_def Let_def call_def split: sum.splits prod.splits option.splits)

lemma newMutations_cases:
  assumes "newMutations s sq st = (r, st')"
  obtains
    (txnFail) e where "r = Inl (NewDBTxnError e)" "events st' = events st @ [EvNewTxn (Inl e)]"
      "mChannels st' = mChannels st"
  | (readFail) tx e rr where "r = Inl (ReadAllError sq e)"
      "events st' = events st @ [EvNewTxn (Inr tx), EvReadAll tx sq (Inl e), EvRollback tx rr]"
      "mChannels st' = mChannels st"
  | (commitFail) tx seq batch e where "r = Inl (TxnCommitError e)"
      "events st' = events st @ [EvNewTxn (Inr tx), EvReadAll tx sq (Inr (seq, batch)), EvCommit tx (Some e)]"
      "mChannels st' = mChannels st"
  | (ok) tx seq batch where "r = Inr (batch, seq)"
      "events st' = events st @ [EvNewTxn (Inr tx), EvReadAll tx sq (Inr (seq, batch)), EvCommit tx None]"
      "mChannels st' = mChannels st"
  using assms
  by (auto simp: newMutations_def Let_def call_def split: sum.splits prod.splits option.splits)

lemma logProofs_events:
  assumes "logProofs s f ep st = (r, st')"
  shows "\<exists>ptr. events st' = events st @ ptr \<and> list_all isProofCall ptr \<and> mChannels st' = mChannels st"
  using assms
  by (auto simp: logProofs_def Let_def call_def split: sum.splits prod.splits option.splits if_splits)

lemma CreateEpoch_cases:
  assumes "CreateEpoch ext s force st = (r, st')"
  obtains
    (rootFail) e where "r = Inl (GetSignedMapRootError (mapID s) e)"
      "events st' = events st @ [EvGetSignedMapRoot (mapID s) (Inl e)]"
  | (txnFail) root e where "r = Inl (NewMutationsError (startSeq root) (NewDBTxnError e))"
      "events st' = events st @ [EvGetSignedMapRoot (mapID s) (Inr root), EvNewTxn (Inl e)]"
  | (readFail) root tx e rr where
      "r = Inl (NewMutationsError (startSeq root) (ReadAllError (startSeq root) e))"
      "events st' = events st @ [EvGetSignedMapRoot (mapID s) (Inr root), EvNewTxn (Inr tx),
          EvReadAll tx (startSeq root) (Inl e), EvRollback tx rr]"
  | (commitFail) root tx seq batch e where
      "r = Inl (NewMutationsError (startSeq root) (TxnCommitError e))"
      "events st' = events st @ [EvGetSignedMapRoot (mapID s) (Inr root), EvNewTxn (Inr tx),
          EvReadAll tx (startSeq root) (Inr (seq, batch)), EvCommit tx (Some e)]"
  | (nothing) root tx seq where "r = Inr None" "\<not> force"
      "events st' = events st @ [EvGetSignedMapRoot (mapID s) (Inr root), EvNewTxn (Inr tx),
          EvReadAll tx (startSeq root) (Inr (seq, [])), EvCommit tx None]"
  | (afterRead) root tx seq batch gres rest where "batch \<noteq> [] \<or> force"
      "events st' = events st @ [EvGetSignedMapRoot (mapID s) (Inr root), EvNewTxn (Inr tx),
          EvReadAll tx (startSeq root) (Inr (seq, batch)), EvCommit tx None,
          EvGetLeaves \<lparr>GL_MapId = mapID s, GL_Index = map mutKey batch, GL_Revision = - 1\<rparr> gres] @ rest"
      "(rest = [] \<and> isl r) \<or>
       (\<exists>sreq e. rest = [EvSetLeaves sreq (Inl e)] \<and> r = Inl e) \<or>
       (\<exists>sreq smr e. rest = [EvSetLeaves sreq (Inr smr)] \<and> json_Marshal ext smr = Inl e \<and> r = Inl e) \<or>
       (\<exists>sreq smr js res ptr. rest = [EvSetLeaves sreq (Inr smr),
            EvQueueLeaf \<lparr>QL_LogId = logID s, QL_Leaf = Some \<lparr>LL_LeafValue = js,
                      LL_LeafIdentityHash = sha256_Sum256 ext js\<rparr>\<rparr> res] @ ptr \<and>
          json_Marshal ext smr = Inr js \<and> list_all isProofCall ptr)"
  using assms
  unfolding CreateEpoch_def Let_def startSeq_def mutKey_def
  by (auto simp: call_def applyMutations_def
      elim!: newMutations_cases queueLogLeaf_cases dest!: logProofs_events
      split: sum.splits prod.splits option.splits if_splits)

lemma setLeavesCalls_append: "setLeavesCalls (xs @ ys) = setLeavesCalls xs @ setLeavesCalls ys"
  by (induction xs rule: setLeavesCalls.induct) auto

lemma getLeavesIndexes_append: "getLeavesIndexes (xs @ ys) = getLeavesIndexes xs @ getLeavesIndexes ys"
  by (induction xs rule: getLeavesIndexes.induct) auto

lemma proof_call:
  assumes "isProofCall e"
  shows "e \<noteq> EvReadAll tx sq x" "e \<noteq> EvCommit tx y" "e \<noteq> EvGetLeaves q g"
    "e \<noteq> EvSetLeaves sr sx" "e \<noteq> EvQueueLeaf qr qx"
  using assms by (cases e; simp)+

lemma proof_calls:
  assumes "list_all isProofCall ptr"
  shows "queuedLeaves ptr = []" "setLeavesCalls ptr = []" "getLeavesIndexes ptr = []"
    "EvReadAll tx sq x \<notin> set ptr" "EvCommit tx y \<notin> set ptr" "EvGetLeaves q g \<notin> set ptr"
    "EvSetLeaves sr sx \<notin> set ptr" "EvQueueLeaf qr qx \<notin> set ptr"
proof -
  show "queuedLeaves ptr = []" using assms
    by (induction ptr rule: queuedLeaves.induct) auto
  show "setLeavesCalls ptr = []" using assms
    by (induction ptr rule: setLeavesCalls.induct) auto
  show "getLeavesIndexes ptr = []" using assms
    by (induction ptr rule: getLeavesIndexes.induct) auto
  show "EvReadAll tx sq x \<notin> set ptr" "EvCommit tx y \<notin> set ptr" "EvGetLeaves q g \<notin> set ptr"
    "EvSetLeaves sr sx \<notin> set ptr" "EvQueueLeaf qr qx \<notin> set ptr"
    using assms proof_call by (auto simp: list_all_iff)
qed

lemma newEvents_append: "events st' = events st @ tr \<Longrightarrow> newEvents st st' = tr"
  by (simp add: newEvents_def)

lemma CreateEpoch_mChannels:
  assumes "CreateEpoch ext s force st = (r, st')"
  shows "mChannels st' = mChannels st"
  using assms
  unfolding CreateEpoch_def Let_def
  by (auto simp: call_def applyMutations_def
      elim!: newMutations_cases queueLogLeaf_cases dest!: logProofs_events
      split: sum.splits prod.splits option.splits if_splits)

lemma attachProofs_Inl:
  "attachProofs ms ps = Inl e \<Longrightarrow> length ms < length ps"
  by (induction ms ps rule: attachProofs.induct) (auto split: sum.splits)

lemma attachProofs_Inr:
  "attachProofs ms ps = Inr ms' \<Longrightarrow> length ps \<le> length ms"
  by (induction ms ps arbitrary: ms' rule: attachProofs.induct) (auto split: sum.splits)

lemma CreateEpoch_SetLeaves_request:
  assumes "CreateEpoch ext s force st = (r, st')"
    and "EvReadAll tx sq (Inr (seq, batch)) \<in> set (newEvents st st')"
    and "EvGetLeaves greq (Inr getResp) \<in> set (newEvents st st')"
    and "length getResp \<le> length batch"
    and "those (map Leaf getResp) = Some leaves"
  shows "setLeavesCalls (newEvents st st') =
     [\<lparr>SL_MapId = mapID s,
       SL_Leaves = map snd (rangeOrder ext
                     (retMap (applyRun (FromLeafValue ext) (mutator s) batch leaves))),
       SL_MapperData = Some \<lparr>SourceLogId = [], HighestFullyCompletedSeq = seq\<rparr>\<rparr>]"
  using assms
  unfolding CreateEpoch_def Let_def newEvents_def
  by (auto simp: call_def applyMutations_def setLeavesCalls_append proof_calls
      elim!: newMutations_cases queueLogLeaf_cases dest!: logProofs_events attachProofs_Inl
      split: sum.splits prod.splits option.splits if_splits)



text \<open>
  Claim C10. \<^verbatim>\<open>toArray\<close> yields 32 bytes: the key followed by zero bytes when the
  key has at most 32 bytes, its first 32 bytes when it has at least 32. The fetched leaf
  found for a key is a leaf whose normalised index equals the normalised key. Every
  returned leaf carries in \<open>Index\<close> the unmodified key of the mutation that produced
  it. Two mutations of the batch whose keys agree on the first 32 bytes have the same
  normalised key, get the same prior entry, and leave at most one leaf under it in the
  returned list. And the returned list is what is written: a run of \<^verbatim>\<open>CreateEpoch\<close>
  that read this batch and fetched these leaves makes one \<^verbatim>\<open>SetLeaves\<close> request, whose
  leaves are that list, each with the unmodified key in \<open>Index\<close>, and at most one for
  two such colliding keys.
\<close>

theorem index_normalisation:
  assumes "visits_each_once iter"
    and "applyMutations iter F M muts leaves = Inr ret"
  shows "length (toArray k) = 32 \<and>
         (length k \<le> 32 \<longrightarrow> toArray k = k @ replicate (32 - length k) 0) \<and>
         (32 \<le> length k \<longrightarrow> toArray k = take 32 k) \<and>
         (\<forall>leaf. map_of (build_leafMap leaves) (toArray k) = Some leaf \<longrightarrow>
                 leaf \<in> set leaves \<and> toArray (Index leaf) = toArray k) \<and>
         (\<forall>l\<in>set ret. \<exists>m\<in>set muts.
                 Index l = mutKey m \<and> written F M (build_leafMap leaves) m = Some l) \<and>
         (\<forall>m1\<in>set muts. \<forall>m2\<in>set muts.
             take 32 (mutKey m1) = take 32 (mutKey m2) \<longrightarrow>
               toArray (mutKey m1) = toArray (mutKey m2) \<and>
               oldValueOf F (build_leafMap leaves) (mutKey m1) =
                 oldValueOf F (build_leafMap leaves) (mutKey m2) \<and>
               length (filter (\<lambda>l. toArray (Index l) = toArray (mutKey m1) \<or>
                                     toArray (Index l) = toArray (mutKey m2)) ret) \<le> 1) \<and>
         (rangeOrder ext = iter \<and> FromLeafValue ext = F \<and> mutator s = M \<and>
          CreateEpoch ext s force st = (r, st') \<and>
          EvReadAll tx sq (Inr (seq, muts)) \<in> set (newEvents st st') \<and>
          EvGetLeaves greq (Inr getResp) \<in> set (newEvents st st') \<and>
          length getResp \<le> length muts \<and>
          those (map Leaf getResp) = Some leaves \<longrightarrow>
            setLeavesCalls (newEvents st st') =
              [\<lparr>SL_MapId = mapID s, SL_Leaves = ret,
                SL_MapperData = Some \<lparr>SourceLogId = [], HighestFullyCompletedSeq = seq\<rparr>\<rparr>] \<and>
            (\<forall>sreq\<in>set (setLeavesCalls (newEvents st st')). \<forall>l\<in>set (SL_Leaves sreq).
                \<exists>m\<in>set muts. Index l = mutKey m \<and>
                               written F M (build_leafMap leaves) m = Some l) \<and>
            (\<forall>sreq\<in>set (setLeavesCalls (newEvents st st')).
               \<forall>m1\<in>set muts. \<forall>m2\<in>set muts.
                 take 32 (mutKey m1) = take 32 (mutKey m2) \<longrightarrow>
                   length (filter (\<lambda>l. toArray (Index l) = toArray (mutKey m1) \<or>
                                         toArray (Index l) = toArray (mutKey m2))
                            (SL_Leaves sreq)) \<le> 1))"
proof -
  have ret: "ret = map snd (iter (retMap (applyRun F M muts leaves)))"
    using assms(2) by (simp add: applyMutations_def)
  have a: "\<forall>leaf. map_of (build_leafMap leaves) (toArray k) = Some leaf \<longrightarrow>
                 leaf \<in> set leaves \<and> toArray (Index leaf) = toArray k"
    using build_leafMap_Some by blast
  have b: "\<forall>l\<in>set ret. \<exists>m\<in>set muts.
                 Index l = mutKey m \<and> written F M (build_leafMap leaves) m = Some l"
    using ret_member[OF assms(1)] written_Index unfolding ret by blast
  have c: "toArray (mutKey m1) = toArray (mutKey m2) \<and>
           oldValueOf F (build_leafMap leaves) (mutKey m1) =
             oldValueOf F (build_leafMap leaves) (mutKey m2) \<and>
           length (filter (\<lambda>l. toArray (Index l) = toArray (mutKey m1) \<or>
                                 toArray (Index l) = toArray (mutKey m2)) ret) \<le> 1"
    if "take 32 (mutKey m1) = take 32 (mutKey m2)" for m1 m2
  proof -
    have e: "toArray (mutKey m1) = toArray (mutKey m2)" by (rule toArray_take_cong[OF that])
    have "length (filter (\<lambda>l. toArray (Index l) = toArray (mutKey m2)) ret) \<le> 1"
      unfolding ret ret_filter[OF assms(1)] by (simp split: option.splits)
    with e show ?thesis by (simp add: oldValueOf_def)
  qed
  have d: "length (toArray k) = 32" by (rule length_toArray)
  have e: "length k \<le> 32 \<longrightarrow> toArray k = k @ replicate (32 - length k) 0"
    using toArray_short by blast
  have f: "32 \<le> length k \<longrightarrow> toArray k = take 32 k"
    using toArray_long by blast
  from c have c': "\<forall>m1\<in>set muts. \<forall>m2\<in>set muts.
             take 32 (mutKey m1) = take 32 (mutKey m2) \<longrightarrow>
               toArray (mutKey m1) = toArray (mutKey m2) \<and>
               oldValueOf F (build_leafMap leaves) (mutKey m1) =
                 oldValueOf F (build_leafMap leaves) (mutKey m2) \<and>
               length (filter (\<lambda>l. toArray (Index l) = toArray (mutKey m1) \<or>
                                     toArray (Index l) = toArray (mutKey m2)) ret) \<le> 1"
    by blast
  have g: "setLeavesCalls (newEvents st st') =
              [\<lparr>SL_MapId = mapID s, SL_Leaves = ret,
                SL_MapperData = Some \<lparr>SourceLogId = [], HighestFullyCompletedSeq = seq\<rparr>\<rparr>] \<and>
            (\<forall>sreq\<in>set (setLeavesCalls (newEvents st st')). \<forall>l\<in>set (SL_Leaves sreq).
                \<exists>m\<in>set muts. Index l = mutKey m \<and>
                               written F M (build_leafMap leaves) m = Some l) \<and>
            (\<forall>sreq\<in>set (setLeavesCalls (newEvents st st')).
               \<forall>m1\<in>set muts. \<forall>m2\<in>set muts.
                 take 32 (mutKey m1) = take 32 (mutKey m2) \<longrightarrow>
                   length (filter (\<lambda>l. toArray (Index l) = toArray (mutKey m1) \<or>
                                         toArray (Index l) = toArray (mutKey m2))
                            (SL_Leaves sreq)) \<le> 1)"
    if "rangeOrder ext = iter \<and> FromLeafValue ext = F \<and> mutator s = M \<and>
          CreateEpoch ext s force st = (r, st') \<and>
          EvReadAll tx sq (Inr (seq, muts)) \<in> set (newEvents st st') \<and>
          EvGetLeaves greq (Inr getResp) \<in> set (newEvents st st') \<and>
          length getResp \<le> length muts \<and>
          those (map Leaf getResp) = Some leaves"
  proof -
    from that have p: "rangeOrder ext = iter" "FromLeafValue ext = F" "mutator s = M"
      and run: "CreateEpoch ext s force st = (r, st')"
      and rd: "EvReadAll tx sq (Inr (seq, muts)) \<in> set (newEvents st st')"
      and gl: "EvGetLeaves greq (Inr getResp) \<in> set (newEvents st st')"
      and ln: "length getResp \<le> length muts"
      and th: "those (map Leaf getResp) = Some leaves" by simp_all
    have sent: "setLeavesCalls (newEvents st st') =
              [\<lparr>SL_MapId = mapID s, SL_Leaves = ret,
                SL_MapperData = Some \<lparr>SourceLogId = [], HighestFullyCompletedSeq = seq\<rparr>\<rparr>]"
      using CreateEpoch_SetLeaves_request[OF run rd gl ln th] unfolding p ret .
    have lv: "SL_Leaves sreq = ret" if "sreq \<in> set (setLeavesCalls (newEvents st st'))" for sreq
      using that unfolding sent by simp
    have g2: "\<forall>sreq\<in>set (setLeavesCalls (newEvents st st')). \<forall>l\<in>set (SL_Leaves sreq).
                \<exists>m\<in>set muts. Index l = mutKey m \<and>
                               written F M (build_leafMap leaves) m = Some l"
    proof (intro ballI)
      fix sreq l
      assume "sreq \<in> set (setLeavesCalls (newEvents st st'))" and "l \<in> set (SL_Leaves sreq)"
      then have "l \<in> set ret" using lv by simp
      then show "\<exists>m\<in>set muts. Index l = mutKey m \<and>
                               written F M (build_leafMap leaves) m = Some l"
        using b by blast
    qed
    have g3: "\<forall>sreq\<in>set (setLeavesCalls (newEvents st st')).
               \<forall>m1\<in>set muts. \<forall>m2\<in>set muts.
                 take 32 (mutKey m1) = take 32 (mutKey m2) \<longrightarrow>
                   length (filter (\<lambda>l. toArray (Index l) = toArray (mutKey m1) \<or>
                                         toArray (Index l) = toArray (mutKey m2))
                            (SL_Leaves sreq)) \<le> 1"
    proof (intro ballI impI)
      fix sreq m1 m2
      assume sr: "sreq \<in> set (setLeavesCalls (newEvents st st'))"
        and tk: "take 32 (mutKey m1) = take 32 (mutKey m2)"
      have "length (filter (\<lambda>l. toArray (Index l) = toArray (mutKey m1) \<or>
                                 toArray (Index l) = toArray (mutKey m2)) ret) \<le> 1"
        using c[OF tk] by (elim conjE)
      then show "length (filter (\<lambda>l. toArray (Index l) = toArray (mutKey m1) \<or>
                                         toArray (Index l) = toArray (mutKey m2))
                            (SL_Leaves sreq)) \<le> 1"
        unfolding lv[OF sr] .
    qed
    from sent g2 g3 show ?thesis by (intro conjI)
  qed
  have g': "rangeOrder ext = iter \<and> FromLeafValue ext = F \<and> mutator s = M \<and>
          CreateEpoch ext s force st = (r, st') \<and>
          EvReadAll tx sq (Inr (seq, muts)) \<in> set (newEvents st st') \<and>
          EvGetLeaves greq (Inr getResp) \<in> set (newEvents st st') \<and>
          length getResp \<le> length muts \<and>
          those (map Leaf getResp) = Some leaves \<longrightarrow>
            setLeavesCalls (newEvents st st') =
              [\<lparr>SL_MapId = mapID s, SL_Leaves = ret,
                SL_MapperData = Some \<lparr>SourceLogId = [], HighestFullyCompletedSeq = seq\<rparr>\<rparr>] \<and>
            (\<forall>sreq\<in>set (setLeavesCalls (newEvents st st')). \<forall>l\<in>set (SL_Leaves sreq).
                \<exists>m\<in>set muts. Index l = mutKey m \<and>
                               written F M (build_leafMap leaves) m = Some l) \<and>
            (\<forall>sreq\<in>set (setLeavesCalls (newEvents st st')).
               \<forall>m1\<in>set muts. \<forall>m2\<in>set muts.
                 take 32 (mutKey m1) = take 32 (mutKey m2) \<longrightarrow>
                   length (filter (\<lambda>l. toArray (Index l) = toArray (mutKey m1) \<or>
                                         toArray (Index l) = toArray (mutKey m2))
                            (SL_Leaves sreq)) \<le> 1)"
    by (rule impI) (rule g)
  from d e f a b c' g' show ?thesis by (intro conjI)
qed

theorem index_normalisation_witness:
  "visits_each_once rev \<and>
   applyMutations rev ex_FromLeafValue ex_Mutate ex_batch_long
     (map (\<lambda>k. ex_leaf k []) [ex_long 1, ex_long 2]) = Inr [ex_leaf (ex_long 2) [20]] \<and>
   length (toArray (ex_long 2)) = 32 \<and>
   32 \<le> length (ex_long 2) \<and> toArray (ex_long 2) = take 32 (ex_long 2) \<and>
   Index (ex_leaf (ex_long 2) [20]) = mutKey (ex_kv (ex_long 2) [20]) \<and>
   take 32 (mutKey (ex_kv (ex_long 1) [10])) = take 32 (mutKey (ex_kv (ex_long 2) [20])) \<and>
   toArray (mutKey (ex_kv (ex_long 1) [10])) = toArray (mutKey (ex_kv (ex_long 2) [20])) \<and>
   length (filter (\<lambda>l. toArray (Index l) = toArray (mutKey (ex_kv (ex_long 1) [10])) \<or>
                         toArray (Index l) = toArray (mutKey (ex_kv (ex_long 2) [20])))
            [ex_leaf (ex_long 2) [20]]) \<le> 1 \<and>
   EvReadAll 0 5 (Inr (7, ex_batch_long))
     \<in> set (newEvents (ex_state [[]]) (snd (ex_run ex_batch_long False))) \<and>
   EvGetLeaves \<lparr>GL_MapId = 1, GL_Index = [ex_long 1, ex_long 2], GL_Revision = - 1\<rparr>
      (Inr (ex_inclusions [ex_long 1, ex_long 2]))
     \<in> set (newEvents (ex_state [[]]) (snd (ex_run ex_batch_long False))) \<and>
   those (map Leaf (ex_inclusions [ex_long 1, ex_long 2])) =
     Some (map (\<lambda>k. ex_leaf k []) [ex_long 1, ex_long 2]) \<and>
   setLeavesCalls (newEvents (ex_state [[]]) (snd (ex_run ex_batch_long False))) =
     [\<lparr>SL_MapId = 1, SL_Leaves = [ex_leaf (ex_long 2) [20]],
       SL_MapperData = Some \<lparr>SourceLogId = [], HighestFullyCompletedSeq = 7\<rparr>\<rparr>] \<and>
   applyMutations rev ex_FromLeafValue ex_Mutate ex_batch ex_leaves =
     Inr [ex_leaf [4] [9, 5], ex_leaf [1, 0] [20]] \<and>
   length [3 :: byte] \<le> 32 \<and>
   toArray [3] = [3] @ replicate (32 - length [3 :: byte]) 0 \<and>
   map_of (build_leafMap ex_leaves) (toArray [3]) = Some (ex_leaf [3] [255, 1]) \<and>
   ex_leaf [3] [255, 1] \<in> set ex_leaves \<and>
   toArray (Index (ex_leaf [3] [255, 1])) = toArray [3]"
proof -
  let ?leaves = "map (\<lambda>k. ex_leaf k []) [ex_long 1, ex_long 2]"
  let ?s = "ex_seq 1 1 ex_batch_long"
  let ?run = "ex_run ex_batch_long False"
  have h1: "visits_each_once rev" by (simp add: visits_each_once_def)
  have h2: "applyMutations rev ex_FromLeafValue ex_Mutate ex_batch_long ?leaves =
     Inr [ex_leaf (ex_long 2) [20]]" by code_simp
  have h3: "32 \<le> length (ex_long 2)" by (simp add: ex_long_def)
  have h4: "take 32 (mutKey (ex_kv (ex_long 1) [10])) = take 32 (mutKey (ex_kv (ex_long 2) [20]))"
    by (simp add: ex_long_def mutKey_def ex_kv_def GetKey_def GetKeyValue_def)
  have h5: "ex_kv (ex_long 1) [10] \<in> set ex_batch_long" "ex_kv (ex_long 2) [20] \<in> set ex_batch_long"
    by (simp_all add: ex_batch_long_def)
  have h6: "Index (ex_leaf (ex_long 2) [20]) = mutKey (ex_kv (ex_long 2) [20])"
    by (simp add: ex_leaf_def mutKey_def ex_kv_def GetKey_def GetKeyValue_def)
  have e1: "rangeOrder ex_ext = rev" "FromLeafValue ex_ext = ex_FromLeafValue"
    "mutator ?s = ex_Mutate" "mapID ?s = 1"
    by (simp_all add: ex_ext_def ex_seq_def)
  have e2: "CreateEpoch ex_ext ?s False (ex_state [[]]) = (fst ?run, snd ?run)"
    by (simp add: ex_run_def)
  have e3: "EvReadAll 0 5 (Inr (7, ex_batch_long)) \<in> set (newEvents (ex_state [[]]) (snd ?run))"
    by code_simp
  have e4: "EvGetLeaves \<lparr>GL_MapId = 1, GL_Index = [ex_long 1, ex_long 2], GL_Revision = - 1\<rparr>
      (Inr (ex_inclusions [ex_long 1, ex_long 2])) \<in> set (newEvents (ex_state [[]]) (snd ?run))"
    by code_simp
  have e5: "length (ex_inclusions [ex_long 1, ex_long 2]) \<le> length ex_batch_long"
    by (simp add: ex_inclusions_def ex_batch_long_def)
  have e6: "those (map Leaf (ex_inclusions [ex_long 1, ex_long 2])) = Some ?leaves" by code_simp
  note T = index_normalisation [where iter = rev and F = ex_FromLeafValue and M = ex_Mutate
        and muts = ex_batch_long and leaves = ?leaves and k = "ex_long 2"
        and ret = "[ex_leaf (ex_long 2) [20]]" and ext = ex_ext and s = ?s and force = False
        and st = "ex_state [[]]" and r = "fst ?run" and st' = "snd ?run" and tx = 0 and sq = 5
        and seq = 7
        and greq = "\<lparr>GL_MapId = 1, GL_Index = [ex_long 1, ex_long 2], GL_Revision = - 1\<rparr>"
        and getResp = "ex_inclusions [ex_long 1, ex_long 2]", OF h1 h2]
  have long: "length (toArray (ex_long 2)) = 32 \<and>
     toArray (ex_long 2) = take 32 (ex_long 2) \<and>
     toArray (mutKey (ex_kv (ex_long 1) [10])) = toArray (mutKey (ex_kv (ex_long 2) [20])) \<and>
     length (filter (\<lambda>l. toArray (Index l) = toArray (mutKey (ex_kv (ex_long 1) [10])) \<or>
                         toArray (Index l) = toArray (mutKey (ex_kv (ex_long 2) [20])))
            [ex_leaf (ex_long 2) [20]]) \<le> 1"
    using h3 h4 h5 T by blast
  have sent: "setLeavesCalls (newEvents (ex_state [[]]) (snd ?run)) =
     [\<lparr>SL_MapId = 1, SL_Leaves = [ex_leaf (ex_long 2) [20]],
       SL_MapperData = Some \<lparr>SourceLogId = [], HighestFullyCompletedSeq = 7\<rparr>\<rparr>]"
    using T e1 e2 e3 e4 e5 e6 by simp
  have k2: "applyMutations rev ex_FromLeafValue ex_Mutate ex_batch ex_leaves =
     Inr [ex_leaf [4] [9, 5], ex_leaf [1, 0] [20]]" by code_simp
  have k3: "length [3 :: byte] \<le> 32" by simp
  have k4: "map_of (build_leafMap ex_leaves) (toArray [3]) = Some (ex_leaf [3] [255, 1])"
    by code_simp
  have short: "toArray [3] = [3] @ replicate (32 - length [3 :: byte]) 0 \<and>
     ex_leaf [3] [255, 1] \<in> set ex_leaves \<and>
     toArray (Index (ex_leaf [3] [255, 1])) = toArray [3]"
    using k3 k4
      index_normalisation [where iter = rev and F = ex_FromLeafValue and M = ex_Mutate
        and muts = ex_batch and leaves = ex_leaves and k = "[3]", OF h1 k2]
    by blast
  show ?thesis using h1 h2 h3 h4 h6 e3 e4 e6 sent k2 k3 k4 long short by blast
qed

text \<open>
  Claim C3, as amended. When \<^verbatim>\<open>CreateEpoch\<close> is called with the force flag false
  and the storage returns an empty batch (and the read transaction commits), it returns
  nil without error, it calls neither \<^verbatim>\<open>SetLeaves\<close> nor \<^verbatim>\<open>QueueLeaf\<close> (so no map
  revision is created), and it leaves the subscriber channels as they are. The body of
  the signing loop then hands that nil result to \<^verbatim>\<open>disseminateMutations\<close>, which
  sends one nil message on every registered channel.
\<close>

theorem CreateEpoch_empty_unforced:
  assumes "CreateEpoch ext s False st = (r, st')"
    and "EvReadAll tx sq (Inr (seq, [])) \<in> set (newEvents st st')"
    and "EvCommit tx None \<in> set (newEvents st st')"
  shows "r = Inr None \<and>
         queuedLeaves (newEvents st st') = [] \<and>
         setLeavesCalls (newEvents st st') = [] \<and>
         mChannels st' = mChannels st \<and>
         epochTick ext s False st =
           (None, st'\<lparr>mChannels := map (\<lambda>ch. ch @ [None]) (mChannels st)\<rparr>)"
proof -
  have ch: "mChannels st' = mChannels st" by (rule CreateEpoch_mChannels[OF assms(1)])
  have main: "r = Inr None \<and> queuedLeaves (newEvents st st') = [] \<and>
         setLeavesCalls (newEvents st st') = []"
    using assms(1)
  proof (cases rule: CreateEpoch_cases)
    case (rootFail e)
    with assms(2) show ?thesis by (simp add: newEvents_append)
  next
    case (txnFail root e)
    with assms(2) show ?thesis by (simp add: newEvents_append)
  next
    case (readFail root tx e rr)
    with assms(2) show ?thesis by (simp add: newEvents_append)
  next
    case (commitFail root tx seq batch e)
    with assms(3) show ?thesis by (simp add: newEvents_append)
  next
    case (nothing root tx seq)
    then show ?thesis by (simp add: newEvents_append)
  next
    case (afterRead root tx' seq' batch gres rest)
    from afterRead(1) have ne: "batch \<noteq> []" by simp
    have "EvReadAll tx sq (Inr (seq, [])) \<notin> set rest"
      using afterRead(3) by (auto simp: proof_calls)
    with assms(2) ne afterRead(2) show ?thesis by (auto simp: newEvents_append)
  qed
  then have "epochTick ext s False st = (None, disseminateMutations None st')"
    using assms(1) by (simp add: epochTick_def)
  then show ?thesis using main ch by (simp add: disseminateMutations_def)
qed

theorem CreateEpoch_empty_unforced_witness:
  "EvReadAll 0 5 (Inr (5, [])) \<in> set (newEvents (ex_state [[]]) (snd (ex_run [] False))) \<and>
   EvCommit 0 None \<in> set (newEvents (ex_state [[]]) (snd (ex_run [] False))) \<and>
   fst (ex_run [] False) = Inr None \<and>
   queuedLeaves (newEvents (ex_state [[]]) (snd (ex_run [] False))) = [] \<and>
   setLeavesCalls (newEvents (ex_state [[]]) (snd (ex_run [] False))) = [] \<and>
   epochTick ex_ext (ex_seq 1 1 []) False (ex_state [[]]) =
     (None, (snd (ex_run [] False))\<lparr>mChannels := [[None]]\<rparr>)"
proof -
  have h1: "CreateEpoch ex_ext (ex_seq 1 1 []) False (ex_state [[]]) =
     (fst (ex_run [] False), snd (ex_run [] False))" by (simp add: ex_run_def)
  have h2: "EvReadAll 0 5 (Inr (5, [])) \<in> set (newEvents (ex_state [[]]) (snd (ex_run [] False)))"
    by code_simp
  have h3: "EvCommit 0 None \<in> set (newEvents (ex_state [[]]) (snd (ex_run [] False)))"
    by code_simp
  have h4: "map (\<lambda>ch. ch @ [None]) (mChannels (ex_state [[]])) = [[None]]"
    by (simp add: ex_state_def)
  show ?thesis
    using h2 h3 CreateEpoch_empty_unforced [OF h1 h2 h3] unfolding h4 by simp
qed

text \<open>
  Claim C3 as stated fails in its last part: with an empty batch, the force flag false
  and one registered channel, the loop body of \<^verbatim>\<open>StartSigning\<close> sends a (nil) message
  on the channel.
\<close>

theorem dispatch_counterexample:
  "fst (CreateEpoch ex_ext (ex_seq 1 1 []) False ex_subscribed) = Inr None \<and>
   mChannels ex_subscribed = [[]] \<and>
   mChannels (snd (epochTick ex_ext (ex_seq 1 1 []) False ex_subscribed)) = [[None]]"
  by code_simp

text \<open>
  Claim C6, as amended. The index list of the \<^verbatim>\<open>GetLeaves\<close> request of a run of
  \<^verbatim>\<open>CreateEpoch\<close> is the list of the keys of the batch that \<^verbatim>\<open>ReadAll\<close> returned,
  one per mutation and in batch order, repeated keys included; the run makes one such
  request.
\<close>

theorem CreateEpoch_GetLeaves_indexes:
  assumes "CreateEpoch ext s force st = (r, st')"
    and "EvGetLeaves req gres \<in> set (newEvents st st')"
  shows "\<exists>tx sq seq batch.
           EvReadAll tx sq (Inr (seq, batch)) \<in> set (newEvents st st') \<and>
           GL_Index req = map mutKey batch \<and>
           length (GL_Index req) = length batch \<and>
           getLeavesIndexes (newEvents st st') = [map mutKey batch]"
  using assms(1)
proof (cases rule: CreateEpoch_cases)
  case (afterRead root tx seq batch g rest)
  have r: "EvGetLeaves req gres \<notin> set rest" "getLeavesIndexes rest = []"
    using afterRead(3) by (auto simp: proof_calls)
  have ev: "newEvents st st' = [EvGetSignedMapRoot (mapID s) (Inr root), EvNewTxn (Inr tx),
          EvReadAll tx (startSeq root) (Inr (seq, batch)), EvCommit tx None,
          EvGetLeaves \<lparr>GL_MapId = mapID s, GL_Index = map mutKey batch, GL_Revision = - 1\<rparr> g] @ rest"
    using afterRead(2) by (rule newEvents_append)
  have "GL_Index req = map mutKey batch" using assms(2) r(1) unfolding ev by auto
  moreover have "getLeavesIndexes (newEvents st st') = [map mutKey batch]"
    unfolding ev by (simp add: getLeavesIndexes_append r(2))
  moreover have "EvReadAll tx (startSeq root) (Inr (seq, batch)) \<in> set (newEvents st st')"
    unfolding ev by simp
  ultimately show ?thesis by (metis length_map)
qed (use assms(2) in \<open>simp_all add: newEvents_append\<close>)

theorem CreateEpoch_GetLeaves_indexes_witness:
  "EvGetLeaves \<lparr>GL_MapId = 1, GL_Index = [[1], [1]], GL_Revision = - 1\<rparr>
      (Inr [\<lparr>Leaf = Some (ex_leaf [1] []), Inclusion = []\<rparr>,
            \<lparr>Leaf = Some (ex_leaf [1] []), Inclusion = []\<rparr>])
     \<in> set (newEvents (ex_state [[]]) (snd (ex_run [ex_kv [1] [10], ex_kv [1] [20]] False))) \<and>
   (\<exists>tx sq seq batch.
       EvReadAll tx sq (Inr (seq, batch))
         \<in> set (newEvents (ex_state [[]]) (snd (ex_run [ex_kv [1] [10], ex_kv [1] [20]] False))) \<and>
       [[1], [1]] = map mutKey batch \<and>
       length [[1 :: byte], [1]] = length batch \<and>
       getLeavesIndexes (newEvents (ex_state [[]]) (snd (ex_run [ex_kv [1] [10], ex_kv [1] [20]] False))) =
         [map mutKey batch])"
proof -
  have h1: "CreateEpoch ex_ext (ex_seq 1 1 [ex_kv [1] [10], ex_kv [1] [20]]) False (ex_state [[]]) =
     (fst (ex_run [ex_kv [1] [10], ex_kv [1] [20]] False),
      snd (ex_run [ex_kv [1] [10], ex_kv [1] [20]] False))" by (simp add: ex_run_def)
  have h2: "EvGetLeaves \<lparr>GL_MapId = 1, GL_Index = [[1], [1]], GL_Revision = - 1\<rparr>
      (Inr [\<lparr>Leaf = Some (ex_leaf [1] []), Inclusion = []\<rparr>,
            \<lparr>Leaf = Some (ex_leaf [1] []), Inclusion = []\<rparr>])
     \<in> set (newEvents (ex_state [[]]) (snd (ex_run [ex_kv [1] [10], ex_kv [1] [20]] False)))"
    by code_simp
  show ?thesis
    using h2 CreateEpoch_GetLeaves_indexes [OF h1 h2] by simp
qed

text \<open>
  Claim C6 as stated fails: for a batch of two mutations of the key \<open>[1]\<close> the request
  carries \<open>[[1], [1]]\<close>, where the distinct indexes in first-occurrence order are
  \<open>[[1]]\<close>.
\<close>

theorem GetLeaves_indexes_counterexample:
  "getLeavesIndexes (events (snd (ex_run [ex_kv [1] [10], ex_kv [1] [20]] False))) = [[[1], [1]]] \<and>
   distinctFirst (map mutKey [ex_kv [1] [10], ex_kv [1] [20]]) = [[1]]"
  by code_simp

text \<open>
  Claim C5. In a run of \<^verbatim>\<open>CreateEpoch\<close> in which \<^verbatim>\<open>SetLeaves\<close> succeeds with the
  signed map root \<open>smr\<close>, whose JSON serialisation is \<open>js\<close>, exactly one
  \<^verbatim>\<open>QueueLeaf\<close> request is made: it follows the \<^verbatim>\<open>SetLeaves\<close> call directly, its leaf
  value is \<open>js\<close> and its leaf identity hash is SHA-256 of \<open>js\<close>. Likewise a run of
  \<^verbatim>\<open>Initialize\<close> that reads a log of tree size 0 and a map root of revision 0 makes
  exactly one \<^verbatim>\<open>QueueLeaf\<close> request, with the serialisation of that map root and its
  SHA-256. (\<^verbatim>\<open>json.Marshal\<close> and SHA-256 are parameters of the model.)
\<close>

theorem queueLogLeaf_after_SetLeaves:
  "(CreateEpoch ext s force st = (r, st1) \<and>
    EvSetLeaves sreq (Inr smr) \<in> set (newEvents st st1) \<and>
    json_Marshal ext smr = Inr js \<longrightarrow>
      queuedLeaves (newEvents st st1) =
        [\<lparr>QL_LogId = logID s,
          QL_Leaf = Some \<lparr>LL_LeafValue = js, LL_LeafIdentityHash = sha256_Sum256 ext js\<rparr>\<rparr>] \<and>
      (\<exists>pre res post. newEvents st st1 =
          pre @ [EvSetLeaves sreq (Inr smr),
                 EvQueueLeaf \<lparr>QL_LogId = logID s, QL_Leaf = Some \<lparr>LL_LeafValue = js,
                      LL_LeafIdentityHash = sha256_Sum256 ext js\<rparr>\<rparr> res] @ post)) \<and>
   (Initialize ext s st = (r0, st0) \<and>
    EvGetLatestSignedLogRoot (logID s) (Inr logRoot) \<in> set (newEvents st st0) \<and>
    EvGetSignedMapRoot (mapID s) (Inr mapRoot) \<in> set (newEvents st st0) \<and>
    GetTreeSize logRoot = 0 \<and> GetMapRevision mapRoot = 0 \<and>
    json_Marshal ext mapRoot = Inr js0 \<longrightarrow>
      queuedLeaves (newEvents st st0) =
        [\<lparr>QL_LogId = logID s,
          QL_Leaf = Some \<lparr>LL_LeafValue = js0, LL_LeafIdentityHash = sha256_Sum256 ext js0\<rparr>\<rparr>])"
proof (intro conjI impI)
  assume a: "CreateEpoch ext s force st = (r, st1) \<and>
    EvSetLeaves sreq (Inr smr) \<in> set (newEvents st st1) \<and> json_Marshal ext smr = Inr js"
  then have run: "CreateEpoch ext s force st = (r, st1)"
    and ev: "EvSetLeaves sreq (Inr smr) \<in> set (newEvents st st1)"
    and js: "json_Marshal ext smr = Inr js" by simp_all
  from run have "queuedLeaves (newEvents st st1) =
        [\<lparr>QL_LogId = logID s,
          QL_Leaf = Some \<lparr>LL_LeafValue = js, LL_LeafIdentityHash = sha256_Sum256 ext js\<rparr>\<rparr>] \<and>
      (\<exists>pre res post. newEvents st st1 =
          pre @ [EvSetLeaves sreq (Inr smr),
                 EvQueueLeaf \<lparr>QL_LogId = logID s, QL_Leaf = Some \<lparr>LL_LeafValue = js,
                      LL_LeafIdentityHash = sha256_Sum256 ext js\<rparr>\<rparr> res] @ post)"
  proof (cases rule: CreateEpoch_cases)
    case (afterRead root tx seq batch gres rest)
    let ?pre = "[EvGetSignedMapRoot (mapID s) (Inr root), EvNewTxn (Inr tx),
          EvReadAll tx (startSeq root) (Inr (seq, batch)), EvCommit tx None,
          EvGetLeaves \<lparr>GL_MapId = mapID s, GL_Index = map mutKey batch, GL_Revision = - 1\<rparr> gres]"
    have tr: "newEvents st st1 = ?pre @ rest" using afterRead(2) by (rule newEvents_append)
    from ev have inrest: "EvSetLeaves sreq (Inr smr) \<in> set rest" unfolding tr by simp
    from afterRead(3) inrest js obtain res ptr where
      rest: "rest = [EvSetLeaves sreq (Inr smr),
            EvQueueLeaf \<lparr>QL_LogId = logID s, QL_Leaf = Some \<lparr>LL_LeafValue = js,
                      LL_LeafIdentityHash = sha256_Sum256 ext js\<rparr>\<rparr> res] @ ptr"
      and ptr: "list_all isProofCall ptr"
      by (auto simp: proof_calls)
    have "queuedLeaves (newEvents st st1) =
        [\<lparr>QL_LogId = logID s,
          QL_Leaf = Some \<lparr>LL_LeafValue = js, LL_LeafIdentityHash = sha256_Sum256 ext js\<rparr>\<rparr>]"
      unfolding tr rest by (simp add: queuedLeaves_append proof_calls(1)[OF ptr])
    moreover have "newEvents st st1 = ?pre @ [EvSetLeaves sreq (Inr smr),
            EvQueueLeaf \<lparr>QL_LogId = logID s, QL_Leaf = Some \<lparr>LL_LeafValue = js,
                      LL_LeafIdentityHash = sha256_Sum256 ext js\<rparr>\<rparr> res] @ ptr"
      unfolding tr rest by simp
    ultimately show ?thesis by blast
  qed (use ev in \<open>simp_all add: newEvents_append\<close>)
  then show "queuedLeaves (newEvents st st1) =
        [\<lparr>QL_LogId = logID s,
          QL_Leaf = Some \<lparr>LL_LeafValue = js, LL_LeafIdentityHash = sha256_Sum256 ext js\<rparr>\<rparr>]"
    and "\<exists>pre res post. newEvents st st1 =
          pre @ [EvSetLeaves sreq (Inr smr),
                 EvQueueLeaf \<lparr>QL_LogId = logID s, QL_Leaf = Some \<lparr>LL_LeafValue = js,
                      LL_LeafIdentityHash = sha256_Sum256 ext js\<rparr>\<rparr> res] @ post"
    by simp_all
next
  assume b: "Initialize ext s st = (r0, st0) \<and>
    EvGetLatestSignedLogRoot (logID s) (Inr logRoot) \<in> set (newEvents st st0) \<and>
    EvGetSignedMapRoot (mapID s) (Inr mapRoot) \<in> set (newEvents st st0) \<and>
    GetTreeSize logRoot = 0 \<and> GetMapRevision mapRoot = 0 \<and>
    json_Marshal ext mapRoot = Inr js0"
  then show "queuedLeaves (newEvents st st0) =
        [\<lparr>QL_LogId = logID s,
          QL_Leaf = Some \<lparr>LL_LeafValue = js0, LL_LeafIdentityHash = sha256_Sum256 ext js0\<rparr>\<rparr>]"
    unfolding Initialize_def newEvents_def
    by (auto simp: call_def elim!: queueLogLeaf_cases split: sum.splits prod.splits option.splits if_splits)
qed

theorem queueLogLeaf_after_SetLeaves_witness:
  "EvSetLeaves \<lparr>SL_MapId = 1, SL_Leaves = [ex_leaf [1] [10]],
                 SL_MapperData = Some \<lparr>SourceLogId = [], HighestFullyCompletedSeq = 6\<rparr>\<rparr>
      (Inr (ex_root 2))
     \<in> set (newEvents (ex_state [[]]) (snd (ex_run [ex_kv [1] [10]] False))) \<and>
   json_Marshal ex_ext (ex_root 2) = Inr [123, 9, 125] \<and>
   queuedLeaves (newEvents (ex_state [[]]) (snd (ex_run [ex_kv [1] [10]] False))) =
     [\<lparr>QL_LogId = 2, QL_Leaf = Some \<lparr>LL_LeafValue = [123, 9, 125],
         LL_LeafIdentityHash = sha256_Sum256 ex_ext [123, 9, 125]\<rparr>\<rparr>] \<and>
   EvGetLatestSignedLogRoot 2 (Inr (ex_logRoot 0))
     \<in> set (newEvents (ex_state [[]]) (snd (ex_init 0 0))) \<and>
   EvGetSignedMapRoot 1 (Inr (ex_root 0))
     \<in> set (newEvents (ex_state [[]]) (snd (ex_init 0 0))) \<and>
   GetTreeSize (ex_logRoot 0) = 0 \<and> GetMapRevision (ex_root 0) = 0 \<and>
   json_Marshal ex_ext (ex_root 0) = Inr [123, 9, 125] \<and>
   queuedLeaves (newEvents (ex_state [[]]) (snd (ex_init 0 0))) =
     [\<lparr>QL_LogId = 2, QL_Leaf = Some \<lparr>LL_LeafValue = [123, 9, 125],
         LL_LeafIdentityHash = sha256_Sum256 ex_ext [123, 9, 125]\<rparr>\<rparr>]"
proof -
  have h1: "CreateEpoch ex_ext (ex_seq 1 1 [ex_kv [1] [10]]) False (ex_state [[]]) =
     (fst (ex_run [ex_kv [1] [10]] False), snd (ex_run [ex_kv [1] [10]] False))"
    by (simp add: ex_run_def)
  have h2: "EvSetLeaves \<lparr>SL_MapId = 1, SL_Leaves = [ex_leaf [1] [10]],
                 SL_MapperData = Some \<lparr>SourceLogId = [], HighestFullyCompletedSeq = 6\<rparr>\<rparr>
      (Inr (ex_root 2))
     \<in> set (newEvents (ex_state [[]]) (snd (ex_run [ex_kv [1] [10]] False)))"
    by code_simp
  have h3: "json_Marshal ex_ext (ex_root 2) = Inr [123, 9, 125]" by code_simp
  have g1: "Initialize ex_ext (ex_seq 0 0 []) (ex_state [[]]) = (fst (ex_init 0 0), snd (ex_init 0 0))"
    by (simp add: ex_init_def)
  have g2: "EvGetLatestSignedLogRoot 2 (Inr (ex_logRoot 0))
     \<in> set (newEvents (ex_state [[]]) (snd (ex_init 0 0)))" by code_simp
  have g3: "EvGetSignedMapRoot 1 (Inr (ex_root 0))
     \<in> set (newEvents (ex_state [[]]) (snd (ex_init 0 0)))" by code_simp
  have g4: "GetTreeSize (ex_logRoot 0) = 0" "GetMapRevision (ex_root 0) = 0" by code_simp+
  have g5: "json_Marshal ex_ext (ex_root 0) = Inr [123, 9, 125]" by code_simp
  have l1: "logID (ex_seq 1 1 [ex_kv [1] [10]]) = 2" "logID (ex_seq 0 0 []) = 2"
    "mapID (ex_seq 0 0 []) = 1"
    by (simp_all add: ex_seq_def)
  note T = queueLogLeaf_after_SetLeaves [where ext = ex_ext and st = "ex_state [[]]"
      and s = "ex_seq 1 1 [ex_kv [1] [10]]" and force = False
      and r = "fst (ex_run [ex_kv [1] [10]] False)" and ?st1.0 = "snd (ex_run [ex_kv [1] [10]] False)"
      and sreq = "\<lparr>SL_MapId = 1, SL_Leaves = [ex_leaf [1] [10]],
                 SL_MapperData = Some \<lparr>SourceLogId = [], HighestFullyCompletedSeq = 6\<rparr>\<rparr>"
      and smr = "ex_root 2" and js = "[123, 9, 125]"]
  note U = queueLogLeaf_after_SetLeaves [where ext = ex_ext and st = "ex_state [[]]"
      and s = "ex_seq 0 0 []" and ?r0.0 = "fst (ex_init 0 0)" and ?st0.0 = "snd (ex_init 0 0)"
      and logRoot = "ex_logRoot 0" and mapRoot = "ex_root 0" and ?js0.0 = "[123, 9, 125]"]
  have a: "queuedLeaves (newEvents (ex_state [[]]) (snd (ex_run [ex_kv [1] [10]] False))) =
     [\<lparr>QL_LogId = 2, QL_Leaf = Some \<lparr>LL_LeafValue = [123, 9, 125],
         LL_LeafIdentityHash = sha256_Sum256 ex_ext [123, 9, 125]\<rparr>\<rparr>]"
    using T h1 h2 h3 unfolding l1 by blast
  have b: "queuedLeaves (newEvents (ex_state [[]]) (snd (ex_init 0 0))) =
     [\<lparr>QL_LogId = 2, QL_Leaf = Some \<lparr>LL_LeafValue = [123, 9, 125],
         LL_LeafIdentityHash = sha256_Sum256 ex_ext [123, 9, 125]\<rparr>\<rparr>]"
    using U g1 g2 g3 g4 g5 unfolding l1 by blast
  show ?thesis using h2 h3 g2 g3 g4 g5 a b by blast
qed

subsection \<open>Initialize\<close>

lemma Initialize_cases:
  assumes "Initialize ext s st = (r, st')"
  obtains
    (logFail) e where "r = Some (GetLatestSignedLogRootError (logID s) e)"
      "newEvents st st' = [EvGetLatestSignedLogRoot (logID s) (Inl e)]"
  | (mapFail) lr e where "r = Some (GetSignedMapRootError (mapID s) e)"
      "newEvents st st' = [EvGetLatestSignedLogRoot (logID s) (Inr lr), EvGetSignedMapRoot (mapID s) (Inl e)]"
  | (logNonEmpty) lr mr where "GetTreeSize lr \<noteq> 0" "r = None"
      "newEvents st st' = [EvGetLatestSignedLogRoot (logID s) (Inr lr), EvGetSignedMapRoot (mapID s) (Inr mr)]"
  | (mapNonEmpty) lr mr where "GetMapRevision mr \<noteq> 0" "r = None"
      "newEvents st st' = [EvGetLatestSignedLogRoot (logID s) (Inr lr), EvGetSignedMapRoot (mapID s) (Inr mr)]"
  | (marshalFail) lr mr e where "GetTreeSize lr = 0" "GetMapRevision mr = 0"
      "json_Marshal ext mr = Inl e" "r = Some e"
      "newEvents st st' = [EvGetLatestSignedLogRoot (logID s) (Inr lr), EvGetSignedMapRoot (mapID s) (Inr mr)]"
  | (queued) lr mr js res where "GetTreeSize lr = 0" "GetMapRevision mr = 0"
      "json_Marshal ext mr = Inr js"
      "r = (case res of None \<Rightarrow> None | Some e \<Rightarrow> Some (QueueLeafError (logID s) js e))"
      "newEvents st st' = [EvGetLatestSignedLogRoot (logID s) (Inr lr), EvGetSignedMapRoot (mapID s) (Inr mr),
         EvQueueLeaf \<lparr>QL_LogId = logID s, QL_Leaf = Some \<lparr>LL_LeafValue = js,
                      LL_LeafIdentityHash = sha256_Sum256 ext js\<rparr>\<rparr> res]"
  using assms
  unfolding Initialize_def newEvents_def
  by (auto simp: call_def elim!: queueLogLeaf_cases split: sum.splits prod.splits option.splits if_splits)

text \<open>
  Claim C7, as amended. \<^verbatim>\<open>Initialize\<close> returns success exactly when both root calls
  succeed and, if the log has tree size 0 and the map has revision 0, the map root
  serialises and the \<^verbatim>\<open>QueueLeaf\<close> call succeeds; the emptiness of the two trees is not
  compared otherwise. With tree size 0 and revision 0 (and a root that serialises) it
  makes exactly one \<^verbatim>\<open>QueueLeaf\<close> request, of the serialised map root; in every other
  case it makes none; and it returns an error whenever one of the two root calls fails.
\<close>

theorem Initialize_contract:
  assumes "Initialize ext s st = (r, st')"
  shows "(r = None \<longleftrightarrow>
           (\<exists>lr mr. take 2 (newEvents st st') =
                      [EvGetLatestSignedLogRoot (logID s) (Inr lr), EvGetSignedMapRoot (mapID s) (Inr mr)] \<and>
                    (GetTreeSize lr = 0 \<and> GetMapRevision mr = 0 \<longrightarrow>
                       (\<exists>js. json_Marshal ext mr = Inr js \<and>
                             drop 2 (newEvents st st') =
                               [EvQueueLeaf \<lparr>QL_LogId = logID s, QL_Leaf = Some \<lparr>LL_LeafValue = js,
                                   LL_LeafIdentityHash = sha256_Sum256 ext js\<rparr>\<rparr> None])))) \<and>
         (\<forall>lr mr js.
             EvGetLatestSignedLogRoot (logID s) (Inr lr) \<in> set (newEvents st st') \<and>
             EvGetSignedMapRoot (mapID s) (Inr mr) \<in> set (newEvents st st') \<and>
             GetTreeSize lr = 0 \<and> GetMapRevision mr = 0 \<and> json_Marshal ext mr = Inr js \<longrightarrow>
             queuedLeaves (newEvents st st') =
               [\<lparr>QL_LogId = logID s, QL_Leaf = Some \<lparr>LL_LeafValue = js,
                   LL_LeafIdentityHash = sha256_Sum256 ext js\<rparr>\<rparr>]) \<and>
         ((\<forall>lr mr.
             EvGetLatestSignedLogRoot (logID s) (Inr lr) \<in> set (newEvents st st') \<and>
             EvGetSignedMapRoot (mapID s) (Inr mr) \<in> set (newEvents st st') \<longrightarrow>
             \<not> (GetTreeSize lr = 0 \<and> GetMapRevision mr = 0)) \<longrightarrow>
          queuedLeaves (newEvents st st') = []) \<and>
         ((\<exists>e. EvGetLatestSignedLogRoot (logID s) (Inl e) \<in> set (newEvents st st') \<or>
               EvGetSignedMapRoot (mapID s) (Inl e) \<in> set (newEvents st st')) \<longrightarrow>
          r \<noteq> None)"
  using assms
proof (cases rule: Initialize_cases)
  case (logFail e)
  then show ?thesis by simp
next
  case (mapFail lr e)
  then show ?thesis by simp
next
  case (logNonEmpty lr mr)
  then show ?thesis by auto
next
  case (mapNonEmpty lr mr)
  then show ?thesis by auto
next
  case (marshalFail lr mr e)
  then show ?thesis by auto
next
  case (queued lr mr js res)
  then show ?thesis by (cases res) auto
qed

theorem Initialize_contract_witness:
  "fst (ex_init 0 0) = None \<and>
   queuedLeaves (newEvents (ex_state [[]]) (snd (ex_init 0 0))) =
     [\<lparr>QL_LogId = 2, QL_Leaf = Some \<lparr>LL_LeafValue = [123, 9, 125],
         LL_LeafIdentityHash = sha256_Sum256 ex_ext [123, 9, 125]\<rparr>\<rparr>] \<and>
   fst (ex_init 0 3) = None \<and>
   queuedLeaves (newEvents (ex_state [[]]) (snd (ex_init 0 3))) = [] \<and>
   EvGetLatestSignedLogRoot 2 (Inl (External ''unavailable''))
     \<in> set (newEvents (ex_state [[]]) (snd (Initialize ex_ext ex_seq_logDown (ex_state [[]])))) \<and>
   fst (Initialize ex_ext ex_seq_logDown (ex_state [[]])) \<noteq> None"
proof -
  have g1: "Initialize ex_ext (ex_seq 0 0 []) (ex_state [[]]) = (fst (ex_init 0 0), snd (ex_init 0 0))"
    by (simp add: ex_init_def)
  have g2: "EvGetLatestSignedLogRoot 2 (Inr (ex_logRoot 0))
     \<in> set (newEvents (ex_state [[]]) (snd (ex_init 0 0)))" by code_simp
  have g3: "EvGetSignedMapRoot 1 (Inr (ex_root 0))
     \<in> set (newEvents (ex_state [[]]) (snd (ex_init 0 0)))" by code_simp
  have g4: "GetTreeSize (ex_logRoot 0) = 0" "GetMapRevision (ex_root 0) = 0" by code_simp+
  have g5: "json_Marshal ex_ext (ex_root 0) = Inr [123, 9, 125]" by code_simp
  have ids: "logID (ex_seq 0 0 []) = 2" "mapID (ex_seq 0 0 []) = 1"
    "logID (ex_seq 0 3 []) = 2" "mapID (ex_seq 0 3 []) = 1"
    "logID ex_seq_logDown = 2" "mapID ex_seq_logDown = 1"
    by (simp_all add: ex_seq_def ex_seq_logDown_def)
  note A = Initialize_contract [OF g1, unfolded ids]
  have a0: "fst (ex_init 0 0) = None" by code_simp
  have a1: "queuedLeaves (newEvents (ex_state [[]]) (snd (ex_init 0 0))) =
     [\<lparr>QL_LogId = 2, QL_Leaf = Some \<lparr>LL_LeafValue = [123, 9, 125],
         LL_LeafIdentityHash = sha256_Sum256 ex_ext [123, 9, 125]\<rparr>\<rparr>]"
    using A g2 g3 g4 g5 by blast
  have k1: "Initialize ex_ext (ex_seq 0 3 []) (ex_state [[]]) = (fst (ex_init 0 3), snd (ex_init 0 3))"
    by (simp add: ex_init_def)
  have k2: "newEvents (ex_state [[]]) (snd (ex_init 0 3)) =
     [EvGetLatestSignedLogRoot 2 (Inr (ex_logRoot 0)), EvGetSignedMapRoot 1 (Inr (ex_root 3))]"
    by code_simp
  have k3: "GetMapRevision (ex_root 3) \<noteq> 0" by code_simp
  note B = Initialize_contract [OF k1, unfolded ids]
  have b0: "fst (ex_init 0 3) = None" by code_simp
  have b1: "queuedLeaves (newEvents (ex_state [[]]) (snd (ex_init 0 3))) = []"
    using B k3 unfolding k2 by auto
  have d1: "Initialize ex_ext ex_seq_logDown (ex_state [[]]) =
     (fst (Initialize ex_ext ex_seq_logDown (ex_state [[]])),
      snd (Initialize ex_ext ex_seq_logDown (ex_state [[]])))" by simp
  have d2: "EvGetLatestSignedLogRoot 2 (Inl (External ''unavailable''))
     \<in> set (newEvents (ex_state [[]]) (snd (Initialize ex_ext ex_seq_logDown (ex_state [[]]))))"
    by code_simp
  note C = Initialize_contract [OF d1, unfolded ids]
  have c1: "fst (Initialize ex_ext ex_seq_logDown (ex_state [[]])) \<noteq> None"
    using C d2 by blast
  show ?thesis using a0 a1 b0 b1 d2 c1 by blast
qed

text \<open>
  Claim C7 as stated fails in its first part: with an empty log (tree size 0) and a
  map at revision 3 the trees do not agree on emptiness, and \<^verbatim>\<open>Initialize\<close> returns
  success (after the two root calls and nothing else).
\<close>

theorem Initialize_agreement_counterexample:
  "fst (Initialize ex_ext (ex_seq 0 3 []) (ex_state [])) = None \<and>
   newEvents (ex_state []) (snd (Initialize ex_ext (ex_seq 0 3 []) (ex_state []))) =
     [EvGetLatestSignedLogRoot 2 (Inr (ex_logRoot 0)), EvGetSignedMapRoot 1 (Inr (ex_root 3))] \<and>
   \<not> treesAgree (ex_logRoot 0) (ex_root 3)"
  by code_simp

subsection \<open>The tick generator\<close>

lemma sint_of_int_64:
  "- (2 ^ 63) \<le> k \<Longrightarrow> k < 2 ^ 63 \<Longrightarrow> sint (word_of_int k :: 64 word) = k"
  by (simp add: sint_sbintrunc' signed_take_bit_int_eq_self)

lemma time_Sub_exact:
  assumes "- (2 ^ 63) \<le> t - u" "t - u < 2 ^ 63"
  shows "sint (time_Sub t u) = t - u"
proof -
  have "time_Sub t u = word_of_int (t - u)"
    using assms unfolding time_Sub_def by (simp del: of_int_diff)
  then show ?thesis using sint_of_int_64[OF assms] by (simp del: of_int_diff)
qed

lemma tickDue_exact:
  assumes "representable t u a"
  shows "tickDue t u a b = spec_due a b t u"
proof -
  have "sint (time_Sub t u + a) = t - u + sint a"
    using assms
    by (simp add: representable_def sint_word_ariths time_Sub_exact signed_take_bit_int_eq_self)
  then show ?thesis by (simp add: tickDue_def word_sle_eq spec_due_def)
qed

text \<open>Outside that range the two tests can differ: a difference of \<open>2 ^ 63\<close> nanoseconds
  (about 292 years) saturates, and adding a positive \<^verbatim>\<open>minElapsed\<close> wraps around.\<close>

lemma tickDue_saturated: "\<not> tickDue (2 ^ 63) 0 1 1 \<and> spec_due 1 1 (2 ^ 63) 0"
  by (simp add: tickDue_def time_Sub_def word_sle_eq spec_due_def)

lemma spec_fire_pair:
  "spec_fire due (l, out) t = (if due t l then (t, out @ [True]) else (l, out @ [False]))"
  by (simp add: spec_fire_def)

lemma spec_fold_out:
  "snd (foldl (spec_fire due) (l, out) ticks) = out @ snd (foldl (spec_fire due) (l, []) ticks)"
proof (induction ticks arbitrary: l out)
  case Nil
  show ?case by simp
next
  case (Cons t ticks)
  show ?case
    using Cons[of t "out @ [True]"] Cons[of l "out @ [False]"] Cons[of t "[True]"] Cons[of l "[False]"]
    by (simp add: spec_fire_pair)
qed

lemma tickLoop_spec:
  "tickLoop l ticks a b = snd (foldl (spec_fire (\<lambda>t u. tickDue t u a b)) (l, []) ticks)"
proof (induction ticks arbitrary: l)
  case Nil
  show ?case by simp
next
  case (Cons t ticks)
  show ?case
    using spec_fold_out[of "\<lambda>t u. tickDue t u a b" t "[True]" ticks]
          spec_fold_out[of "\<lambda>t u. tickDue t u a b" l "[False]" ticks]
    by (simp add: Cons spec_fire_pair)
qed

lemma genEpochTicks_reread:
  "genEpochTicks clock last0 ticks a b = reread_ticks (\<lambda>t u. tickDue t u a b) clock last0 ticks"
  using spec_fold_out[of "\<lambda>t u. tickDue t u a b" "clock 1" "[True]" ticks]
  by (simp add: genEpochTicks_def reread_ticks_def ticks_from_def tickLoop_spec)

lemma spec_fold_cong:
  assumes "l \<in> L" "set ticks \<subseteq> L"
    and "\<And>t u. t \<in> set ticks \<Longrightarrow> u \<in> L \<Longrightarrow> due1 t u = due2 t u"
  shows "foldl (spec_fire due1) (l, out) ticks = foldl (spec_fire due2) (l, out) ticks"
  using assms
proof (induction ticks arbitrary: l out)
  case Nil
  show ?case by simp
next
  case (Cons t ticks)
  have d: "due1 t l = due2 t l" using Cons.prems by simp
  have "foldl (spec_fire due1) (l', out') ticks = foldl (spec_fire due2) (l', out') ticks"
    if "l' \<in> L" for l' out'
    using Cons.IH[OF that] Cons.prems by simp
  then show ?case using d Cons.prems by (simp add: spec_fire_pair)
qed

lemma reread_ticks_cong:
  assumes "allRepresentable clock last0 ticks a"
  shows "reread_ticks (\<lambda>t u. tickDue t u a b) clock last0 ticks =
         reread_ticks (spec_due a b) clock last0 ticks"
proof -
  let ?L = "set (last0 # clock 1 # ticks)"
  have rep: "representable t l a" if "t \<in> set (clock 0 # ticks)" "l \<in> ?L" for t l
    using assms that unfolding allRepresentable_def list_all_iff by blast
  have d0: "tickDue (clock 0) last0 a b = spec_due a b (clock 0) last0"
    by (rule tickDue_exact) (rule rep, simp_all)
  have eq: "tickDue t u a b = spec_due a b t u" if "t \<in> set ticks" "u \<in> ?L" for t u
    by (rule tickDue_exact) (rule rep, use that in simp_all)
  have f: "foldl (spec_fire (\<lambda>t u. tickDue t u a b)) (l, out) ticks =
           foldl (spec_fire (spec_due a b)) (l, out) ticks" if "l \<in> ?L" for l out
    by (rule spec_fold_cong[where L = ?L]) (use that eq in auto)
  show ?thesis
    unfolding reread_ticks_def ticks_from_def d0 by (simp add: f)
qed

text \<open>
  Claim C8, as amended. The values that \<^verbatim>\<open>genEpochTicks\<close> sends are: a single
  \<open>True\<close> at start-up iff the test holds for the clock against \<open>last\<close>, after which
  \<open>last\<close> becomes a second reading of the clock, taken after the send; then for each
  firing \<open>t\<close> in turn \<open>True\<close> with \<open>last := t\<close> when the test holds for \<open>t\<close>,
  \<open>False\<close> otherwise. The test is the one the source computes on durations
  (saturating \<^verbatim>\<open>Sub\<close>, wrapping \<^verbatim>\<open>+\<close>, signed \<^verbatim>\<open>>=\<close>); where the differences and
  sums fit a duration it is \<open>t - last + minInterval \<ge> maxInterval\<close> on the integers; and
  where moreover the second reading of the clock equals the first, the values are those
  of the tick sequence of the specification.
\<close>

theorem genEpochTicks_contract:
  "genEpochTicks clock last0 ticks minInterval maxInterval =
     reread_ticks (\<lambda>t l. tickDue t l minInterval maxInterval) clock last0 ticks \<and>
   (allRepresentable clock last0 ticks minInterval \<longrightarrow>
      genEpochTicks clock last0 ticks minInterval maxInterval =
        reread_ticks (spec_due minInterval maxInterval) clock last0 ticks) \<and>
   (allRepresentable clock last0 ticks minInterval \<and> clock 1 = clock 0 \<longrightarrow>
      genEpochTicks clock last0 ticks minInterval maxInterval =
        spec_ticks clock last0 ticks minInterval maxInterval)"
proof -
  have a: "genEpochTicks clock last0 ticks minInterval maxInterval =
     reread_ticks (\<lambda>t l. tickDue t l minInterval maxInterval) clock last0 ticks"
    by (rule genEpochTicks_reread)
  have b: "genEpochTicks clock last0 ticks minInterval maxInterval =
        reread_ticks (spec_due minInterval maxInterval) clock last0 ticks"
    if "allRepresentable clock last0 ticks minInterval"
    using a reread_ticks_cong[OF that] by simp
  have c: "reread_ticks (spec_due minInterval maxInterval) clock last0 ticks =
        spec_ticks clock last0 ticks minInterval maxInterval" if "clock 1 = clock 0"
    using that by (simp add: reread_ticks_def spec_ticks_def)
  show ?thesis using a b c by simp
qed

theorem genEpochTicks_contract_witness:
  "allRepresentable (\<lambda>n. 100 + int n) 0 [110, 120, 130, 140] 10 \<and>
   genEpochTicks (\<lambda>n. 100 + int n) 0 [110, 120, 130, 140] 10 30 =
     reread_ticks (spec_due 10 30) (\<lambda>n. 100 + int n) 0 [110, 120, 130, 140] \<and>
   reread_ticks (spec_due 10 30) (\<lambda>n. 100 + int n) 0 [110, 120, 130, 140] =
     [True, False, False, True, False] \<and>
   allRepresentable (\<lambda>n. 100) 0 [110, 120, 130, 140] 10 \<and>
   genEpochTicks (\<lambda>n. 100) 0 [110, 120, 130, 140] 10 30 =
     spec_ticks (\<lambda>n. 100) 0 [110, 120, 130, 140] 10 30 \<and>
   spec_ticks (\<lambda>n. 100) 0 [110, 120, 130, 140] 10 30 = [True, False, True, False, True]"
proof -
  have h: "allRepresentable (\<lambda>n. 100 + int n) 0 [110, 120, 130, 140] 10" by code_simp
  have v: "reread_ticks (spec_due 10 30) (\<lambda>n. 100 + int n) 0 [110, 120, 130, 140] =
     [True, False, False, True, False]" by code_simp
  have k: "allRepresentable (\<lambda>n. 100) 0 [110, 120, 130, 140] 10" by code_simp
  have w: "spec_ticks (\<lambda>n. 100) 0 [110, 120, 130, 140] 10 30 = [True, False, True, False, True]"
    by code_simp
  have e: "(\<lambda>n::nat. 100::int) 1 = (\<lambda>n. 100) 0" by simp
  have a1: "genEpochTicks (\<lambda>n. 100 + int n) 0 [110, 120, 130, 140] 10 30 =
     reread_ticks (spec_due 10 30) (\<lambda>n. 100 + int n) 0 [110, 120, 130, 140]"
    using h genEpochTicks_contract [of "\<lambda>n. 100 + int n" 0 "[110, 120, 130, 140]" 10 30]
    by blast
  have a2: "genEpochTicks (\<lambda>n. 100) 0 [110, 120, 130, 140] 10 30 =
     spec_ticks (\<lambda>n. 100) 0 [110, 120, 130, 140] 10 30"
    using k e genEpochTicks_contract [of "\<lambda>n. 100" 0 "[110, 120, 130, 140]" 10 30]
    by blast
  from h a1 v k a2 w show ?thesis by (intro conjI)
qed

text \<open>
  Claim C8 as stated fails twice. With a clock that reads 100 and then 101 the source
  sets \<open>last\<close> to 101 at start-up and is not due at the firing 120, where the
  specification, with \<open>last := now = 100\<close>, is. With a \<^verbatim>\<open>minInterval\<close> of the
  greatest duration the sum wraps around and the source emits \<open>False\<close>, where the
  inequality of the specification holds.
\<close>

theorem genEpochTicks_counterexample:
  "genEpochTicks (\<lambda>n. 100 + int n) 0 [110, 120, 130, 140] 10 30 =
     [True, False, False, True, False] \<and>
   spec_ticks (\<lambda>n. 100 + int n) 0 [110, 120, 130, 140] 10 30 =
     [True, False, True, False, True] \<and>
   genEpochTicks (\<lambda>n. 1) 0 [1] (2 ^ 63 - 1) 0 = [False] \<and>
   spec_ticks (\<lambda>n. 1) 0 [1] (2 ^ 63 - 1) 0 = [True, True]"
  by code_simp

end
